theory Spec2Isabelle
  imports Main "HOL-Library.Word"
begin

section \<open>The configuration file reader (ini.cpp)\<close>

text \<open>
  \<^verbatim>\<open>INIParser::parse\<close> reads the file line by line (\<^verbatim>\<open>std::getline\<close>) and keeps two
  things between lines: the name of the section it is in and the table
  \<^verbatim>\<open>data[section][key] = value\<close>. A line is a \<open>string\<close> without the newline; the
  two nested \<^verbatim>\<open>unordered_map\<close>s are maps.
\<close>

record ini_state =
  currentSection :: string
  data :: "string \<rightharpoonup> (string \<rightharpoonup> string)"

text \<open>\<^verbatim>\<open>line.find_first_of(";#")\<close> followed by \<^verbatim>\<open>line.substr(0, commentPos)\<close>.\<close>

definition is_comment_char :: "char \<Rightarrow> bool" where
  "is_comment_char c = (c = CHR '';'' \<or> c = CHR ''#'')"

definition strip_comment :: "string \<Rightarrow> string" where
  "strip_comment line = takeWhile (\<lambda>c. \<not> is_comment_char c) line"

text \<open>The characters of \<^verbatim>\<open>" \t\r\n"\<close>.\<close>

definition is_space :: "char \<Rightarrow> bool" where
  "is_space c = (c = CHR '' '' \<or> c = CHR 0x09 \<or> c = CHR 0x0D \<or> c = CHR 0x0A)"

text \<open>
  \<^verbatim>\<open>s.erase(0, s.find_first_not_of(ws)); s.erase(s.find_last_not_of(ws) + 1);\<close>
  When no other character is found both calls erase the whole string
  (\<^verbatim>\<open>npos\<close> as a count, \<^verbatim>\<open>npos + 1 = 0\<close> as a position).
\<close>

definition trim :: "string \<Rightarrow> string" where
  "trim s = rev (dropWhile is_space (rev (dropWhile is_space s)))"

text \<open>The body of the \<^verbatim>\<open>while (std::getline(file, line))\<close> loop.\<close>

definition parse_line :: "ini_state \<Rightarrow> string \<Rightarrow> ini_state" where
  "parse_line st line0 =
     (let line = trim (strip_comment line0) in
      if line = [] then st
      else if hd line = CHR ''['' \<and> last line = CHR '']''
        then st\<lparr>currentSection := take (length line - 2) (drop 1 line)\<rparr>
      else if CHR ''='' \<notin> set line then st
      else
        let key = trim (takeWhile (\<lambda>c. c \<noteq> CHR ''='') line);
            val = trim (drop 1 (dropWhile (\<lambda>c. c \<noteq> CHR ''='') line));
            sec = (case data st (currentSection st) of None \<Rightarrow> Map.empty | Some m \<Rightarrow> m)
        in st\<lparr>data := (data st)(currentSection st \<mapsto> sec(key \<mapsto> val))\<rparr>)"

definition ini_init :: ini_state where
  "ini_init = \<lparr>currentSection = [], data = Map.empty\<rparr>"

text \<open>
  \<^verbatim>\<open>parse\<close> on a file that opens, given as its lines; a file that does not open makes
  \<^verbatim>\<open>parse\<close> return false with nothing stored.
\<close>

definition parse :: "string list option \<Rightarrow> bool \<times> ini_state" where
  "parse file = (case file of None \<Rightarrow> (False, ini_init)
                 | Some lines \<Rightarrow> (True, foldl parse_line ini_init lines))"

text \<open>\<^verbatim>\<open>INIParser::get\<close>.\<close>

definition get :: "ini_state \<Rightarrow> string \<Rightarrow> string \<Rightarrow> string \<Rightarrow> string" where
  "get st section key defaultValue =
     (case data st section of None \<Rightarrow> defaultValue
      | Some sec \<Rightarrow> (case sec key of None \<Rightarrow> defaultValue | Some v \<Rightarrow> v))"

section \<open>The NetFlow v9 decoder (netflow_collector.cpp)\<close>

subsection \<open>Data\<close>

type_synonym byte = "8 word"

text \<open>\<^verbatim>\<open>struct NetFlowV9FieldSpecifier { uint16_t type; uint16_t length; }\<close>\<close>

record NetFlowV9FieldSpecifier =
  type_fs :: "16 word"
  length_fs :: "16 word"

text \<open>\<^verbatim>\<open>struct FlowData\<close>; \<^verbatim>\<open>SourcePort\<close> and \<^verbatim>\<open>DestinationPort\<close> are C++ \<^verbatim>\<open>int\<close>s.\<close>

record FlowData =
  SourceIP :: string
  DestinationIP :: string
  SourcePort :: int
  DestinationPort :: int
  Protocol :: "8 word"
  PacketCount :: "32 word"
  ByteCount :: "32 word"
  FlowStart :: string
  FlowEnd :: string
  SourceSond :: string

text \<open>\<^verbatim>\<open>std::map<uint16_t, std::vector<NetFlowV9FieldSpecifier>> templates\<close>\<close>

type_synonym template_table = "16 word \<rightharpoonup> NetFlowV9FieldSpecifier list"

text \<open>
  \<^verbatim>\<open>struct SondaRuntime\<close>, as far as the decoder uses it: \<open>config_name\<close> is
  \<^verbatim>\<open>config.name\<close> and \<open>templates\<close> the template table. The two effects of the decoder
  on the outside are kept with it: \<open>inserted\<close> lists the records handed to
  \<^verbatim>\<open>dbHandler->insertFlowData\<close>, oldest first, and \<open>cerr\<close> the lines written to
  \<^verbatim>\<open>std::cerr\<close> (the \<^verbatim>\<open>syslog\<close> calls repeat them).
\<close>

record SondaRuntime =
  config_name :: string
  templates :: template_table
  inserted :: "FlowData list"
  cerr :: "string list"

text \<open>
  What the decoder takes from outside the program text: the answer of the database
  handler to its \<open>k\<close>-th \<^verbatim>\<open>insertFlowData\<close> call, and the values the scalar members of
  \<^verbatim>\<open>FlowData flowData;\<close> hold when the \<open>k\<close>-th record is declared. The declaration
  default-initialises the structure: the \<^verbatim>\<open>std::string\<close> members are empty, the
  \<^verbatim>\<open>int\<close>, \<^verbatim>\<open>uint8_t\<close> and \<^verbatim>\<open>uint32_t\<close> members are not initialised.
\<close>

record environment =
  insertFlowData :: "nat \<Rightarrow> FlowData \<Rightarrow> bool"
  indeterminate :: "nat \<Rightarrow> FlowData"

definition new_FlowData :: "FlowData \<Rightarrow> FlowData" where
  "new_FlowData junk =
     junk\<lparr>SourceIP := [], DestinationIP := [], FlowStart := [], FlowEnd := [], SourceSond := []\<rparr>"

subsection \<open>Machine arithmetic\<close>

text \<open>
  \<^verbatim>\<open>size_t\<close> is unsigned and \<^verbatim>\<open>ssize_t\<close> signed, both 64 bits wide. \<open>size_t x\<close> and
  \<open>ssize_t x\<close> are the values of these types that \<open>x\<close> is converted to.
\<close>

definition size_t :: "int \<Rightarrow> int" where
  "size_t x = x mod 2 ^ 64"

definition ssize_t :: "int \<Rightarrow> int" where
  "ssize_t x = (x + 2 ^ 63) mod 2 ^ 64 - 2 ^ 63"

text \<open>
  A pointer into the datagram is its distance from \<^verbatim>\<open>buffer\<close>. \<^verbatim>\<open>p + n\<close> with
  \<open>n\<close> a \<^verbatim>\<open>size_t\<close> is computed modulo \<open>2 ^ 64\<close> on the address, so that adding
  \<open>2 ^ 64 - k\<close> moves the pointer \<open>k\<close> bytes back (the buffer is neither in the first nor
  in the last bytes of the address space).
\<close>

definition ptr_plus :: "int \<Rightarrow> int \<Rightarrow> int" where
  "ptr_plus p n = p + ssize_t n"

subsection \<open>Reading memory\<close>

text \<open>
  \<open>buf\<close> is the memory that starts at \<^verbatim>\<open>buffer\<close>, up to the end of the allocation. It holds
  the received datagram in its first \<^verbatim>\<open>length\<close> bytes and whatever was there before in
  the rest. A read that leaves the allocation has no defined result:
  it ends the run with \<open>ReadOutsideBuffer\<close>.
\<close>

datatype error = ReadOutsideBuffer

definition read_bytes :: "byte list \<Rightarrow> int \<Rightarrow> nat \<Rightarrow> error + byte list" where
  "read_bytes buf p k =
     (if 0 \<le> p \<and> p + int k \<le> int (length buf) then Inr (take k (drop (nat p) buf))
      else Inl ReadOutsideBuffer)"

fun big_endian :: "byte list \<Rightarrow> nat" where
  "big_endian [] = 0"
| "big_endian (b # bs) = unat b * 256 ^ length bs + big_endian bs"

text \<open>\<^verbatim>\<open>*(uint8_t*)p\<close>, \<^verbatim>\<open>ntohs(*(uint16_t*)p)\<close> and \<^verbatim>\<open>ntohl(*(uint32_t*)p)\<close>.\<close>

definition read_u8 :: "byte list \<Rightarrow> int \<Rightarrow> error + 8 word" where
  "read_u8 buf p =
     (case read_bytes buf p 1 of Inl e \<Rightarrow> Inl e | Inr bs \<Rightarrow> Inr (of_nat (big_endian bs)))"

definition read_u16 :: "byte list \<Rightarrow> int \<Rightarrow> error + 16 word" where
  "read_u16 buf p =
     (case read_bytes buf p 2 of Inl e \<Rightarrow> Inl e | Inr bs \<Rightarrow> Inr (of_nat (big_endian bs)))"

definition read_u32 :: "byte list \<Rightarrow> int \<Rightarrow> error + 32 word" where
  "read_u32 buf p =
     (case read_bytes buf p 4 of Inl e \<Rightarrow> Inl e | Inr bs \<Rightarrow> Inr (of_nat (big_endian bs)))"

text \<open>Decimal output of an unsigned number, as \<^verbatim>\<open>operator<<\<close> and \<^verbatim>\<open>inet_ntoa\<close> print it.\<close>

definition digit_char :: "nat \<Rightarrow> char" where
  "digit_char d = ''0123456789'' ! d"

fun decimal :: "nat \<Rightarrow> string" where
  "decimal n = (if n < 10 then [digit_char n] else decimal (n div 10) @ [digit_char (n mod 10)])"

declare decimal.simps [simp del]

definition inet_ntoa :: "byte list \<Rightarrow> string" where
  "inet_ntoa bs = decimal (unat (bs ! 0)) @ ''.'' @ decimal (unat (bs ! 1)) @ ''.''
                  @ decimal (unat (bs ! 2)) @ ''.'' @ decimal (unat (bs ! 3))"

text \<open>\<^verbatim>\<open>inet_ntoa(*(struct in_addr*)p)\<close>: four bytes, whatever the field's length.\<close>

definition read_in_addr :: "byte list \<Rightarrow> int \<Rightarrow> error + string" where
  "read_in_addr buf p =
     (case read_bytes buf p 4 of Inl e \<Rightarrow> Inl e | Inr bs \<Rightarrow> Inr (inet_ntoa bs))"

subsection \<open>Data records\<close>

text \<open>
  The \<^verbatim>\<open>switch (field.type)\<close> of the record loop, reading at \<^verbatim>\<open>recordPtr + offset\<close>.
  The cases 21 and 22 and the default case do nothing.
\<close>

definition decode_field :: "byte list \<Rightarrow> int \<Rightarrow> 16 word \<Rightarrow> FlowData \<Rightarrow> error + FlowData" where
  "decode_field buf p t flowData =
     (if t = 8 then
        (case read_in_addr buf p of Inl e \<Rightarrow> Inl e | Inr a \<Rightarrow> Inr (flowData\<lparr>SourceIP := a\<rparr>))
      else if t = 12 then
        (case read_in_addr buf p of Inl e \<Rightarrow> Inl e | Inr a \<Rightarrow> Inr (flowData\<lparr>DestinationIP := a\<rparr>))
      else if t = 7 then
        (case read_u16 buf p of Inl e \<Rightarrow> Inl e | Inr v \<Rightarrow> Inr (flowData\<lparr>SourcePort := uint v\<rparr>))
      else if t = 11 then
        (case read_u16 buf p of Inl e \<Rightarrow> Inl e
         | Inr v \<Rightarrow> Inr (flowData\<lparr>DestinationPort := uint v\<rparr>))
      else if t = 4 then
        (case read_u8 buf p of Inl e \<Rightarrow> Inl e | Inr v \<Rightarrow> Inr (flowData\<lparr>Protocol := v\<rparr>))
      else if t = 2 then
        (case read_u32 buf p of Inl e \<Rightarrow> Inl e | Inr v \<Rightarrow> Inr (flowData\<lparr>PacketCount := v\<rparr>))
      else if t = 1 then
        (case read_u32 buf p of Inl e \<Rightarrow> Inl e | Inr v \<Rightarrow> Inr (flowData\<lparr>ByteCount := v\<rparr>))
      else Inr flowData)"

text \<open>\<^verbatim>\<open>for (auto& field : fields) { switch ...; offset += field.length; }\<close>\<close>

fun field_walk ::
  "byte list \<Rightarrow> int \<Rightarrow> NetFlowV9FieldSpecifier list \<Rightarrow> int \<Rightarrow> FlowData \<Rightarrow> error + FlowData" where
  "field_walk buf recordPtr [] offset flowData = Inr flowData"
| "field_walk buf recordPtr (field # flds) offset flowData =
     (case decode_field buf (recordPtr + offset) (type_fs field) flowData of
        Inl e \<Rightarrow> Inl e
      | Inr flowData' \<Rightarrow>
          field_walk buf recordPtr flds (offset + uint (length_fs field)) flowData')"

text \<open>
  \<^verbatim>\<open>for (auto& field : fields) recordLength += field.length;\<close> The sum is a
  \<^verbatim>\<open>size_t\<close>; a vector filled by the decoder has at most 65535 fields of at most
  65535 bytes, far from wrapping round.
\<close>

definition recordLength :: "NetFlowV9FieldSpecifier list \<Rightarrow> int" where
  "recordLength flds = (\<Sum>field \<leftarrow> flds. uint (length_fs field))"

definition log_line :: "string \<Rightarrow> SondaRuntime \<Rightarrow> SondaRuntime" where
  "log_line msg sonda = sonda\<lparr>cerr := cerr sonda @ [msg]\<rparr>"

definition insert_record :: "environment \<Rightarrow> FlowData \<Rightarrow> SondaRuntime \<Rightarrow> SondaRuntime" where
  "insert_record env flowData sonda =
     (let sonda' = sonda\<lparr>inserted := inserted sonda @ [flowData]\<rparr>
      in if insertFlowData env (length (inserted sonda)) flowData then sonda'
         else log_line ''Failed to insert flow data into database.'' sonda')"

text \<open>
  \<^verbatim>\<open>while (recordPtr + recordLength <= ptr + flowsetDataLength)\<close>. Nothing bounds the
  number of rounds when \<^verbatim>\<open>recordLength\<close> is 0: the loop is a partial function, and
  \<open>None\<close> says that it does not return.
\<close>

partial_function (option) record_loop ::
  "environment \<Rightarrow> byte list \<Rightarrow> NetFlowV9FieldSpecifier list \<Rightarrow> int \<Rightarrow> int \<Rightarrow> int \<Rightarrow> SondaRuntime
     \<Rightarrow> (error + SondaRuntime) option" where
  "record_loop env buf flds recLen recordPtr body_end sonda =
     (if recordPtr + recLen \<le> body_end then
        (case field_walk buf recordPtr flds 0
                (new_FlowData (indeterminate env (length (inserted sonda)))) of
           Inl e \<Rightarrow> Some (Inl e)
         | Inr flowData \<Rightarrow>
             record_loop env buf flds recLen (recordPtr + recLen) body_end
               (insert_record env (flowData\<lparr>SourceSond := config_name sonda\<rparr>) sonda))
      else Some (Inr sonda))"

declare record_loop.simps [code]

subsection \<open>Template records\<close>

text \<open>
  \<^verbatim>\<open>for (int i = 0; i < fieldCount; ++i)\<close>: the first argument is the number of rounds
  left; each round reads one field specifier, appends it and moves \<^verbatim>\<open>templatePtr\<close>.
\<close>

fun field_loop :: "byte list \<Rightarrow> nat \<Rightarrow> int \<Rightarrow> NetFlowV9FieldSpecifier list
     \<Rightarrow> error + (NetFlowV9FieldSpecifier list \<times> int)" where
  "field_loop buf 0 templatePtr flds = Inr (flds, templatePtr)"
| "field_loop buf (Suc k) templatePtr flds =
     (case read_u16 buf templatePtr of Inl e \<Rightarrow> Inl e | Inr t \<Rightarrow>
       (case read_u16 buf (templatePtr + 2) of Inl e \<Rightarrow> Inl e | Inr l \<Rightarrow>
          field_loop buf k (templatePtr + 4) (flds @ [\<lparr>type_fs = t, length_fs = l\<rparr>])))"

text \<open>\<^verbatim>\<open>while (templatePtr < ptr + flowsetDataLength)\<close>\<close>

function template_loop ::
  "byte list \<Rightarrow> int \<Rightarrow> int \<Rightarrow> template_table \<Rightarrow> error + template_table" where
  "template_loop buf templatePtr body_end tab =
     (if templatePtr < body_end then
        (case read_u16 buf templatePtr of Inl e \<Rightarrow> Inl e | Inr templateID \<Rightarrow>
          (case read_u16 buf (templatePtr + 2) of Inl e \<Rightarrow> Inl e | Inr fieldCount \<Rightarrow>
            (case field_loop buf (unat fieldCount) (templatePtr + 4) [] of Inl e \<Rightarrow> Inl e
             | Inr (flds, templatePtr') \<Rightarrow>
                 template_loop buf templatePtr' body_end (tab(templateID \<mapsto> flds)))))
      else Inr tab)"
  by pat_completeness auto
termination
proof (relation "measure (\<lambda>(buf, p, e, tab). nat (e - p))", goal_cases)
  case 1
  show ?case by simp
next
  case (2 buf templatePtr body_end tab templateID fieldCount result flds templatePtr')
  have advance: "field_loop buf k p fs = Inr (fs', p') \<Longrightarrow> p \<le> p'" for k p fs fs' p'
  proof (induction k arbitrary: p fs)
    case 0
    then show ?case by simp
  next
    case (Suc k)
    from Suc.prems obtain t l where
      "field_loop buf k (p + 4) (fs @ [\<lparr>type_fs = t, length_fs = l\<rparr>]) = Inr (fs', p')"
      by (auto split: sum.splits)
    from Suc.IH [OF this] show ?case by simp
  qed
  from 2 have "field_loop buf (unat fieldCount) (templatePtr + 4) [] = Inr (flds, templatePtr')"
    by simp
  from advance [OF this] 2(1) show ?case
    by simp
qed

declare template_loop.simps [simp del]

subsection \<open>The FlowSet walk\<close>

text \<open>\<^verbatim>\<open>size_t flowsetDataLength = flowsetLength - sizeof(NetFlowV9FlowSetHeader);\<close>\<close>

definition flowsetDataLength :: "16 word \<Rightarrow> int" where
  "flowsetDataLength flowsetLength = size_t (size_t (uint flowsetLength) - 4)"

text \<open>
  \<^verbatim>\<open>while (length > 0)\<close>, with \<open>len\<close> for \<^verbatim>\<open>length\<close>. The loop need not end either.
\<close>

partial_function (option) flowset_loop ::
  "environment \<Rightarrow> byte list \<Rightarrow> int \<Rightarrow> int \<Rightarrow> SondaRuntime \<Rightarrow> (error + SondaRuntime) option" where
  "flowset_loop env buf ptr len sonda =
     (if len > 0 then
        if len < 4 then Some (Inr (log_line ''Incomplete FlowSet header.'' sonda))
        else
          (case read_u16 buf ptr of Inl e \<Rightarrow> Some (Inl e) | Inr flowsetID \<Rightarrow>
          (case read_u16 buf (ptr + 2) of Inl e \<Rightarrow> Some (Inl e) | Inr flowsetLength \<Rightarrow>
           let ptr = ptr + 4;
               len = ssize_t (size_t len - 4)
           in
             if size_t (uint flowsetLength) > size_t (size_t len + 4)
             then Some (Inr (log_line ''FlowSet length exceeds remaining packet length.'' sonda))
             else
               let dataLen = flowsetDataLength flowsetLength in
               if flowsetID = 0 then
                 (case template_loop buf ptr (ptr_plus ptr dataLen) (templates sonda) of
                    Inl e \<Rightarrow> Some (Inl e)
                  | Inr tab \<Rightarrow>
                      flowset_loop env buf (ptr_plus ptr dataLen) (ssize_t (size_t len - dataLen))
                        (sonda\<lparr>templates := tab\<rparr>))
               else if flowsetID > 255 then
                 (case templates sonda flowsetID of
                    None \<Rightarrow>
                      flowset_loop env buf (ptr_plus ptr dataLen) (ssize_t (size_t len - dataLen))
                        (log_line (''Unknown template ID: '' @ decimal (unat flowsetID)) sonda)
                  | Some flds \<Rightarrow>
                      (case record_loop env buf flds (recordLength flds) ptr
                              (ptr_plus ptr dataLen) sonda of
                         None \<Rightarrow> None
                       | Some (Inl e) \<Rightarrow> Some (Inl e)
                       | Some (Inr sonda') \<Rightarrow>
                           flowset_loop env buf (ptr_plus ptr dataLen)
                             (ssize_t (size_t len - dataLen)) sonda'))
               else
                 flowset_loop env buf (ptr_plus ptr dataLen) (ssize_t (size_t len - dataLen))
                   sonda))
      else Some (Inr sonda))"

declare flowset_loop.simps [code]

text \<open>
  \<^verbatim>\<open>processNetFlowV9Data(buffer, length, sonda)\<close>: the header's \<^verbatim>\<open>count\<close> is read and
  not used, the walk starts behind the 20 bytes of the header.
\<close>

definition processNetFlowV9Data ::
  "environment \<Rightarrow> byte list \<Rightarrow> int \<Rightarrow> SondaRuntime \<Rightarrow> (error + SondaRuntime) option" where
  "processNetFlowV9Data env buf len sonda =
     (case read_u16 buf 2 of Inl e \<Rightarrow> Some (Inl e)
      | Inr count \<Rightarrow> flowset_loop env buf 20 (ssize_t (size_t len - 20)) sonda)"

section \<open>Notions used to state the properties\<close>

subsection \<open>Datagrams, FlowSet by FlowSet\<close>

text \<open>
  The wire format of section 4.4 of the specification, to say which datagram is meant: a
  datagram is a header of 20 bytes followed by FlowSets; a FlowSet is its id, its length
  (the 4 bytes of these two fields included) and its body, all numbers big-endian. The
  body of a template FlowSet (id 0) is a sequence of template records: template id, field
  count, and that many field specifiers.
\<close>

definition u16_bytes :: "16 word \<Rightarrow> byte list" where
  "u16_bytes w = [of_nat (unat w div 256), of_nat (unat w mod 256)]"

definition wire_field :: "NetFlowV9FieldSpecifier \<Rightarrow> byte list" where
  "wire_field f = u16_bytes (type_fs f) @ u16_bytes (length_fs f)"

type_synonym template_record = "16 word \<times> NetFlowV9FieldSpecifier list"

definition wire_template :: "template_record \<Rightarrow> byte list" where
  "wire_template r =
     u16_bytes (fst r) @ u16_bytes (of_nat (length (snd r))) @ concat (map wire_field (snd r))"

datatype flowset = TemplateFlowSet "template_record list" | FlowSet "16 word" "byte list"

fun flowset_id :: "flowset \<Rightarrow> 16 word" where
  "flowset_id (TemplateFlowSet recs) = 0"
| "flowset_id (FlowSet fid body) = fid"

fun flowset_body :: "flowset \<Rightarrow> byte list" where
  "flowset_body (TemplateFlowSet recs) = concat (map wire_template recs)"
| "flowset_body (FlowSet fid body) = body"

definition wire_flowset :: "flowset \<Rightarrow> byte list" where
  "wire_flowset fs =
     u16_bytes (flowset_id fs) @ u16_bytes (of_nat (4 + length (flowset_body fs)))
     @ flowset_body fs"

definition wire_datagram :: "byte list \<Rightarrow> flowset list \<Rightarrow> byte list" where
  "wire_datagram header fss = header @ concat (map wire_flowset fss)"

text \<open>
  What the 16 bits of the count and length fields allow: at most 65535 fields in a
  template record, at most 65535 bytes in a FlowSet; the id 0 is the template FlowSet's.
\<close>

definition wf_template :: "template_record \<Rightarrow> bool" where
  "wf_template r = (length (snd r) \<le> 65535)"

fun wf_flowset :: "flowset \<Rightarrow> bool" where
  "wf_flowset (TemplateFlowSet recs) =
     (list_all wf_template recs \<and> 4 + length (concat (map wire_template recs)) \<le> 65535)"
| "wf_flowset (FlowSet fid body) = (fid \<noteq> 0 \<and> 4 + length body \<le> 65535)"

text \<open>\<^verbatim>\<open>sonda.templates[templateID] = fields\<close>, for one record and for a sequence of them.\<close>

definition install :: "template_table \<Rightarrow> template_record \<Rightarrow> template_table" where
  "install tab r = tab(fst r \<mapsto> snd r)"

definition install_all :: "template_table \<Rightarrow> template_record list \<Rightarrow> template_table" where
  "install_all tab recs = foldl install tab recs"

fun template_records :: "flowset list \<Rightarrow> template_record list" where
  "template_records [] = []"
| "template_records (TemplateFlowSet recs # fss) = recs @ template_records fss"
| "template_records (FlowSet fid body # fss) = template_records fss"

text \<open>
  The number of records a sequence of FlowSets is due, FlowSet by FlowSet with the table as
  it is when the FlowSet is reached: a data FlowSet (id above 255) with the template
  \<open>flds\<close> in the table holds as many records as \<open>recordLength flds\<close> goes into its body
  (its length less the 4 bytes of its header), rounded down; the bytes left over are
  padding. A data FlowSet whose template is not in the table is due none.
  \<open>widths_positive\<close> says that the templates so used have a record length above 0.
\<close>

fun records_due :: "template_table \<Rightarrow> flowset list \<Rightarrow> nat" where
  "records_due tab [] = 0"
| "records_due tab (TemplateFlowSet recs # fss) = records_due (install_all tab recs) fss"
| "records_due tab (FlowSet fid body # fss) =
     (if 255 < fid
      then (case tab fid of None \<Rightarrow> 0
            | Some flds \<Rightarrow> nat (int (length body) div recordLength flds))
      else 0) + records_due tab fss"

fun widths_positive :: "template_table \<Rightarrow> flowset list \<Rightarrow> bool" where
  "widths_positive tab [] = True"
| "widths_positive tab (TemplateFlowSet recs # fss) = widths_positive (install_all tab recs) fss"
| "widths_positive tab (FlowSet fid body # fss) =
     ((if 255 < fid then (case tab fid of None \<Rightarrow> True | Some flds \<Rightarrow> 0 < recordLength flds)
       else True) \<and> widths_positive tab fss)"

text \<open>
  The same count as the specification's section 8 words it, with the table taken once,
  after all the template FlowSets of the datagram: every data FlowSet has its template
  in that table, and the records are the sum over the data FlowSets of
  \<open>(length - 4) div W\<close>.
\<close>

definition all_templates_present :: "template_table \<Rightarrow> flowset list \<Rightarrow> bool" where
  "all_templates_present tab fss =
     list_all (\<lambda>fs. if 255 < flowset_id fs
                     then (case install_all tab (template_records fss) (flowset_id fs) of
                             None \<Rightarrow> False | Some flds \<Rightarrow> True)
                     else True) fss"

definition claimed_records :: "template_table \<Rightarrow> flowset list \<Rightarrow> int" where
  "claimed_records tab fss =
     (\<Sum>fs \<leftarrow> fss. if 255 < flowset_id fs
                   then (case install_all tab (template_records fss) (flowset_id fs) of
                           None \<Rightarrow> 0
                         | Some flds \<Rightarrow> int (length (flowset_body fs)) div recordLength flds)
                   else 0)"

text \<open>
  A counter as section 4.5 of the specification words it: the \<open>L\<close> bytes of the field,
  read big-endian, and of that number the low 32 bits.
\<close>

definition claimed_counter :: "byte list \<Rightarrow> int \<Rightarrow> nat \<Rightarrow> error + 32 word" where
  "claimed_counter buf p L =
     (case read_bytes buf p L of Inl e \<Rightarrow> Inl e | Inr bs \<Rightarrow> Inr (of_nat (big_endian bs)))"

text \<open>What the record loop leaves as it is, when it returns.\<close>

definition record_loop_keeps :: "SondaRuntime \<Rightarrow> error + SondaRuntime \<Rightarrow> bool" where
  "record_loop_keeps sonda r =
     (case r of Inl _ \<Rightarrow> True
      | Inr sonda' \<Rightarrow> templates sonda' = templates sonda \<and> config_name sonda' = config_name sonda)"

subsection \<open>Inputs\<close>

text \<open>
  A header of version 9, a probe with an empty template table, a database that takes
  every record, and two fillings of the members \<^verbatim>\<open>FlowData flowData;\<close> leaves
  uninitialised: zeros, and what an earlier record may have left there.
\<close>

definition header20 :: "byte list" where
  "header20 = [0, 9, 0, 1, 0, 0, 0, 0, 0, 0, 0, 0, 0, 0, 0, 0, 0, 0, 0, 0]"

definition probe1 :: SondaRuntime where
  "probe1 = \<lparr>config_name = ''probe1'', templates = Map.empty, inserted = [], cerr = []\<rparr>"

definition zero_FlowData :: FlowData where
  "zero_FlowData = \<lparr>SourceIP = [], DestinationIP = [], SourcePort = 0, DestinationPort = 0,
     Protocol = 0, PacketCount = 0, ByteCount = 0, FlowStart = [], FlowEnd = [], SourceSond = []\<rparr>"

definition quiet_env :: environment where
  "quiet_env = \<lparr>insertFlowData = (\<lambda>k flowData. True), indeterminate = (\<lambda>k. zero_FlowData)\<rparr>"

definition stale_FlowData :: FlowData where
  "stale_FlowData = \<lparr>SourceIP = ''192.0.2.1'', DestinationIP = ''192.0.2.2'', SourcePort = 4242,
     DestinationPort = 80, Protocol = 17, PacketCount = 7, ByteCount = 9, FlowStart = [],
     FlowEnd = [], SourceSond = ''probe1''\<rparr>"

definition stale_env :: environment where
  "stale_env = \<lparr>insertFlowData = (\<lambda>k flowData. True), indeterminate = (\<lambda>k. stale_FlowData)\<rparr>"

text \<open>
  A template FlowSet of length 8 whose record (template 256, one field) lacks its field
  specifier.
\<close>

definition short_template_datagram :: "byte list" where
  "short_template_datagram = header20 @ [0, 0, 0, 8, 1, 0, 0, 1]"

text \<open>
  A FlowSet header with the length 2, two more bytes, and a template FlowSet that defines
  the template 256.
\<close>

definition short_length_datagram :: "byte list" where
  "short_length_datagram =
     header20 @ [0, 1, 0, 2] @ [0, 4] @ [0, 0, 0, 12, 1, 0, 0, 1, 0, 1, 0, 4]"

text \<open>
  The template 256 with one field of type 1 and length 0, then a data FlowSet with the id
  256 and 4 bytes of body.
\<close>

definition zero_width_datagram :: "byte list" where
  "zero_width_datagram =
     header20 @ [0, 0, 0, 12, 1, 0, 0, 1, 0, 1, 0, 0] @ [1, 0, 0, 8, 0, 0, 0, 5]"

text \<open>The template 300 defined twice in one datagram; a probe that knows the template 400.\<close>

definition redefining_flowsets :: "flowset list" where
  "redefining_flowsets =
     [TemplateFlowSet [(300, [\<lparr>type_fs = 8, length_fs = 4\<rparr>, \<lparr>type_fs = 1, length_fs = 4\<rparr>])],
      TemplateFlowSet [(300, [\<lparr>type_fs = 8, length_fs = 4\<rparr>, \<lparr>type_fs = 12, length_fs = 4\<rparr>,
                              \<lparr>type_fs = 1, length_fs = 4\<rparr>])]]"

definition probe_with_400 :: SondaRuntime where
  "probe_with_400 = probe1\<lparr>templates := [400 \<mapsto> [\<lparr>type_fs = 4, length_fs = 1\<rparr>]]\<rparr>"

text \<open>
  A template of 8 bytes (source address, byte count) and a data FlowSet of 11 bytes of
  body: one record (10.0.0.1, 1500 bytes) and 3 bytes of padding.
\<close>

definition one_record_flowsets :: "flowset list" where
  "one_record_flowsets =
     [TemplateFlowSet [(256, [\<lparr>type_fs = 8, length_fs = 4\<rparr>, \<lparr>type_fs = 1, length_fs = 4\<rparr>])],
      FlowSet 256 [10, 0, 0, 1, 0, 0, 5, 220, 0, 0, 0]]"

text \<open>A data FlowSet with the id 256 in front of the template FlowSet that defines 256.\<close>

definition early_data_flowsets :: "flowset list" where
  "early_data_flowsets =
     [FlowSet 256 [0, 0, 0, 7], TemplateFlowSet [(256, [\<lparr>type_fs = 1, length_fs = 4\<rparr>])]]"

text \<open>A data FlowSet with the id 256, alone.\<close>

definition unknown_template_datagram :: "byte list" where
  "unknown_template_datagram = header20 @ [1, 0, 0, 8, 1, 2, 3, 4]"

text \<open>
  A template FlowSet of length 14: the template 256 and two bytes of padding, \<open>p0\<close> and
  \<open>p1\<close>; behind it a template FlowSet that defines the template 257.
\<close>

definition padded_template_datagram :: "byte \<Rightarrow> byte \<Rightarrow> byte list" where
  "padded_template_datagram p0 p1 =
     header20 @ [0, 0, 0, 14, 1, 0, 0, 1, 0, 1, 0, 4, p0, p1]
       @ [0, 0, 0, 12, 1, 1, 0, 1, 0, 2, 0, 4]"



text \<open>The template 256 with the source address alone, and one record of it.\<close>

definition source_ip_only_datagram :: "byte list" where
  "source_ip_only_datagram =
     header20 @ [0, 0, 0, 12, 1, 0, 0, 1, 0, 8, 0, 4] @ [1, 0, 0, 8, 10, 0, 0, 1]"

text \<open>
  The template 256 with a byte count of 8 bytes as its only field, and one record of it
  whose byte count is \<open>2 ^ 32 + 1500\<close>; a record with a source address, a byte count of
  8 bytes with the value 1500 and a packet count of 4 bytes with the value 3.
\<close>

definition wide_counter_datagram :: "byte list" where
  "wide_counter_datagram =
     header20 @ [0, 0, 0, 12, 1, 0, 0, 1, 0, 1, 0, 8]
       @ [1, 0, 0, 12, 0, 0, 0, 1, 0, 0, 5, 220]"

definition mixed_record :: "byte list" where
  "mixed_record = [10, 0, 0, 1, 0, 0, 0, 0, 0, 0, 5, 220, 0, 0, 0, 3]"

text \<open>A configuration file of three lines.\<close>

definition ini_example :: "string list" where
  "ini_example = [''[Database]'', ''mysql_password = pa#ss;word'', ''key ; = v'']"

definition no_comment_char :: "string \<Rightarrow> bool" where
  "no_comment_char s = (\<forall>c \<in> set s. \<not> is_comment_char c)"

definition values_clean :: "ini_state \<Rightarrow> bool" where
  "values_clean st = (\<forall>sec m key v. data st sec = Some m \<longrightarrow> m key = Some v \<longrightarrow> no_comment_char v)"

section \<open>Properties of the configuration file reader\<close>

lemma strip_comment_clean: "no_comment_char (strip_comment line)"
  unfolding no_comment_char_def strip_comment_def
  by (auto dest: set_takeWhileD)

lemma strip_comment_idem: "strip_comment (strip_comment line) = strip_comment line"
  unfolding strip_comment_def by (simp add: takeWhile_idem)

lemma set_trim: "set (trim s) \<subseteq> set s"
proof -
  have "set (trim s) = set (dropWhile is_space (rev (dropWhile is_space s)))"
    by (simp add: trim_def)
  also have "\<dots> \<subseteq> set (rev (dropWhile is_space s))"
    by (rule set_dropWhileD [THEN subsetI])
  also have "\<dots> \<subseteq> set s"
    by (auto dest: set_dropWhileD)
  finally show ?thesis .
qed

lemma no_comment_char_mono: "set t \<subseteq> set s \<Longrightarrow> no_comment_char s \<Longrightarrow> no_comment_char t"
  unfolding no_comment_char_def by blast

lemma no_comment_char_value:
  "no_comment_char (trim (drop 1 (dropWhile p (trim (strip_comment line)))))"
proof -
  have "set (trim (drop 1 (dropWhile p (trim (strip_comment line)))))
          \<subseteq> set (drop 1 (dropWhile p (trim (strip_comment line))))"
    by (rule set_trim)
  also have "\<dots> \<subseteq> set (dropWhile p (trim (strip_comment line)))"
    by (rule set_drop_subset)
  also have "\<dots> \<subseteq> set (trim (strip_comment line))"
    by (auto dest: set_dropWhileD)
  also have "\<dots> \<subseteq> set (strip_comment line)"
    by (rule set_trim)
  finally show ?thesis
    using strip_comment_clean no_comment_char_mono by blast
qed

lemma parse_line_clean: "values_clean st \<Longrightarrow> values_clean (parse_line st line)"
  unfolding values_clean_def parse_line_def Let_def
  using no_comment_char_value [of "\<lambda>c. c \<noteq> CHR ''=''" line]
  by (auto split: if_splits option.splits)

lemma foldl_parse_line_clean:
  "values_clean st \<Longrightarrow> values_clean (foldl parse_line st lines)"
  by (induction lines arbitrary: st) (simp_all add: parse_line_clean)

lemma parse_line_strip: "parse_line st (strip_comment line) = parse_line st line"
  unfolding parse_line_def by (simp add: strip_comment_idem)

lemma parse_line_no_equals:
  "CHR ''='' \<notin> set (strip_comment line) \<Longrightarrow> data (parse_line st line) = data st"
proof -
  assume "CHR ''='' \<notin> set (strip_comment line)"
  then have "CHR ''='' \<notin> set (trim (strip_comment line))"
    using set_trim by blast
  then show ?thesis
    unfolding parse_line_def Let_def by simp
qed

text \<open>
  C10. Every line is cut at its first \<open>;\<close> or \<open>#\<close> before anything else is done with it:
  the line and its comment-free prefix are parsed alike, wherever the character stands
  (inside a value too). Hence no value stored by \<open>parse\<close> contains \<open>;\<close> or \<open>#\<close>, and a
  line whose remaining prefix holds no \<open>=\<close> stores nothing.
\<close>

theorem ini_comment_chars_cut:
  "parse_line st line = parse_line st (strip_comment line)
   \<and> (parse (Some lines) = (ok, res) \<longrightarrow> data res sec = Some m \<longrightarrow> m key = Some v
        \<longrightarrow> CHR '';'' \<notin> set v \<and> CHR ''#'' \<notin> set v)
   \<and> (CHR ''='' \<notin> set (strip_comment line) \<longrightarrow> data (parse_line st line) = data st)"
proof (intro conjI impI)
  show "parse_line st line = parse_line st (strip_comment line)"
    by (simp add: parse_line_strip)
next
  assume p: "parse (Some lines) = (ok, res)" and s: "data res sec = Some m" and k: "m key = Some v"
  have "values_clean ini_init"
    by (simp add: values_clean_def ini_init_def)
  then have "values_clean (foldl parse_line ini_init lines)"
    by (rule foldl_parse_line_clean)
  with p have "values_clean res"
    by (simp add: parse_def)
  with s k have "no_comment_char v"
    unfolding values_clean_def by blast
  then show "CHR '';'' \<notin> set v" and "CHR ''#'' \<notin> set v"
    unfolding no_comment_char_def is_comment_char_def by auto
next
  assume "CHR ''='' \<notin> set (strip_comment line)"
  then show "data (parse_line st line) = data st"
    by (rule parse_line_no_equals)
qed

lemma ini_example_parse:
  "parse (Some ini_example) =
     (True, \<lparr>currentSection = ''Database'',
             data = [''Database'' \<mapsto> [''mysql_password'' \<mapsto> ''pa'']]\<rparr>)"
  by (simp add: ini_example_def parse_def parse_line_def ini_init_def trim_def strip_comment_def
      is_comment_char_def is_space_def)

text \<open>
  C10 on a file whose password holds \<open>#\<close> and \<open>;\<close> and whose last line has its \<open>=\<close> behind
  a \<open>;\<close>.
\<close>

theorem ini_comment_chars_cut_witness:
  "parse (Some ini_example) =
     (True, \<lparr>currentSection = ''Database'',
             data = [''Database'' \<mapsto> [''mysql_password'' \<mapsto> ''pa'']]\<rparr>)
   \<and> CHR '';'' \<notin> set ''pa'' \<and> CHR ''#'' \<notin> set ''pa''
   \<and> CHR ''='' \<notin> set (strip_comment ''key ; = v'')
   \<and> data (parse_line ini_init ''key ; = v'') = data ini_init"
proof -
  have noeq: "CHR ''='' \<notin> set (strip_comment ''key ; = v'')"
    by (simp add: strip_comment_def is_comment_char_def)
  note inst = ini_comment_chars_cut [of ini_init "''key ; = v''" ini_example True
      "\<lparr>currentSection = ''Database'',
             data = [''Database'' \<mapsto> [''mysql_password'' \<mapsto> ''pa'']]\<rparr>"
      "''Database''" "[''mysql_password'' \<mapsto> ''pa'']" "''mysql_password''" "''pa''"]
  have dropped: "data (parse_line ini_init ''key ; = v'') = data ini_init"
    using inst noeq by blast
  have clean: "CHR '';'' \<notin> set ''pa'' \<and> CHR ''#'' \<notin> set ''pa''"
    using inst ini_example_parse by simp
  show ?thesis
    using ini_example_parse noeq dropped clean by blast
qed

section \<open>Properties of the decoder\<close>

lemma size_t_id: "0 \<le> x \<Longrightarrow> x < 2 ^ 64 \<Longrightarrow> size_t x = x"
  by (simp add: size_t_def)

lemma ssize_t_id: "- (2 ^ 63) \<le> x \<Longrightarrow> x < 2 ^ 63 \<Longrightarrow> ssize_t x = x"
  by (simp add: ssize_t_def)

lemma ssize_t_size_t_diff:
  "- (2 ^ 63) \<le> a - b \<Longrightarrow> a - b < 2 ^ 63 \<Longrightarrow> ssize_t (size_t a - size_t b) = a - b"
proof -
  assume r: "- (2 ^ 63) \<le> a - b" "a - b < 2 ^ 63"
  have "(a mod 2 ^ 64 - b mod 2 ^ 64 + 2 ^ 63) mod 2 ^ 64 = (a - b + 2 ^ 63) mod (2 ^ 64 :: int)"
    by (metis mod_add_left_eq mod_diff_eq)
  also have "\<dots> = a - b + 2 ^ 63"
    using r by simp
  finally show ?thesis
    by (simp add: ssize_t_def size_t_def)
qed

lemma ssize_t_size_t_minus_const:
  "0 \<le> c \<Longrightarrow> c < 2 ^ 64 \<Longrightarrow> - (2 ^ 63) \<le> a - c \<Longrightarrow> a - c < 2 ^ 63 \<Longrightarrow> ssize_t (size_t a - c) = a - c"
  using ssize_t_size_t_diff [of a c] by (simp add: size_t_id)

lemma flowsetDataLength_eq: "flowsetDataLength fl = size_t (uint fl - 4)"
proof -
  have "0 \<le> uint fl" "uint fl < 2 ^ 64"
    using uint_lt2p [of fl] by simp_all
  then show ?thesis
    by (simp add: flowsetDataLength_def size_t_id)
qed

lemma uint16_bounds: "0 \<le> uint (w :: 16 word)" "uint (w :: 16 word) < 65536"
  using uint_lt2p [of w] by simp_all

lemma ssize_t_congruent: "ssize_t (size_t x) = ssize_t x"
  by (simp add: ssize_t_def size_t_def mod_simps)

lemma ptr_plus_flowsetDataLength: "ptr_plus p (flowsetDataLength fl) = p + uint fl - 4"
proof -
  have "ssize_t (size_t (uint fl - 4)) = uint fl - 4"
    unfolding ssize_t_congruent using uint16_bounds [of fl] by (simp add: ssize_t_id)
  then show ?thesis
    by (simp add: ptr_plus_def flowsetDataLength_eq)
qed

lemma length_minus_flowsetDataLength:
  assumes "- (2 ^ 62) \<le> len" "len < 2 ^ 62"
  shows "ssize_t (size_t len - flowsetDataLength fl) = len - (uint fl - 4)"
proof -
  define n where "n = uint fl"
  have n: "0 \<le> n" "n < 65536"
    using uint16_bounds [of fl] by (simp_all add: n_def)
  have "ssize_t (size_t len - size_t (n - 4)) = len - (n - 4)"
    using assms n by (intro ssize_t_size_t_diff) simp_all
  then show ?thesis
    by (simp add: flowsetDataLength_eq n_def)
qed

lemma flowset_loop_done: "len \<le> 0 \<Longrightarrow> flowset_loop env buf ptr len sonda = Some (Inr sonda)"
  by (subst flowset_loop.simps) simp

lemma flowset_loop_incomplete:
  "0 < len \<Longrightarrow> len < 4 \<Longrightarrow>
   flowset_loop env buf ptr len sonda = Some (Inr (log_line ''Incomplete FlowSet header.'' sonda))"
  by (subst flowset_loop.simps) simp

lemma flowset_loop_header:
  assumes len: "4 \<le> len" "len < 2 ^ 62"
    and id: "read_u16 buf ptr = Inr flowsetID"
    and fl: "read_u16 buf (ptr + 2) = Inr flowsetLength"
  shows "flowset_loop env buf ptr len sonda =
     (if uint flowsetLength > len
      then Some (Inr (log_line ''FlowSet length exceeds remaining packet length.'' sonda))
      else if flowsetID = 0 then
        (case template_loop buf (ptr + 4) (ptr + uint flowsetLength) (templates sonda) of
           Inl e \<Rightarrow> Some (Inl e)
         | Inr tab \<Rightarrow>
             flowset_loop env buf (ptr + uint flowsetLength) (len - uint flowsetLength)
               (sonda\<lparr>templates := tab\<rparr>))
      else if flowsetID > 255 then
        (case templates sonda flowsetID of
           None \<Rightarrow>
             flowset_loop env buf (ptr + uint flowsetLength) (len - uint flowsetLength)
               (log_line (''Unknown template ID: '' @ decimal (unat flowsetID)) sonda)
         | Some flds \<Rightarrow>
             (case record_loop env buf flds (recordLength flds) (ptr + 4)
                     (ptr + uint flowsetLength) sonda of
                None \<Rightarrow> None
              | Some (Inl e) \<Rightarrow> Some (Inl e)
              | Some (Inr sonda') \<Rightarrow>
                  flowset_loop env buf (ptr + uint flowsetLength) (len - uint flowsetLength) sonda'))
      else flowset_loop env buf (ptr + uint flowsetLength) (len - uint flowsetLength) sonda)"
proof -
  have a: "ssize_t (size_t len - 4) = len - 4"
    using len by (intro ssize_t_size_t_minus_const) simp_all
  have b: "size_t (size_t (len - 4) + 4) = len"
    using len by (simp add: size_t_def mod_simps)
  have c: "size_t (uint flowsetLength) = uint flowsetLength"
    using uint16_bounds [of flowsetLength] by (simp add: size_t_id)
  have d: "ssize_t (size_t (len - 4) - flowsetDataLength flowsetLength) = len - uint flowsetLength"
    using len length_minus_flowsetDataLength [of "len - 4" flowsetLength] by simp
  have e: "ptr_plus (ptr + 4) (flowsetDataLength flowsetLength) = ptr + uint flowsetLength"
    by (simp add: ptr_plus_flowsetDataLength)
  show ?thesis
    using len by (subst flowset_loop.simps) (simp add: id fl a b c d e Let_def cong: sum.case_cong option.case_cong if_cong)
qed

lemma length_u16_bytes [simp]: "length (u16_bytes w) = 2"
  by (simp add: u16_bytes_def)

lemma big_endian_u16_bytes: "big_endian (u16_bytes w) = unat w"
proof -
  have "unat w < 65536"
    using unsigned_less [of w, where ?'a = nat] by simp
  then have "unat w div 256 < 256"
    by simp
  then have hi: "unat (of_nat (unat w div 256) :: byte) = unat w div 256"
    by (simp add: unat_of_nat)
  have lo: "unat (of_nat (unat w mod 256) :: byte) = unat w mod 256"
    by (simp add: unat_of_nat)
  show ?thesis
    by (simp add: u16_bytes_def hi lo)
qed

lemma read_bytes_append:
  "read_bytes (pre @ bs @ post) (int (length pre)) (length bs) = Inr bs"
  by (simp add: read_bytes_def)

lemma read_u16_wire: "read_u16 (pre @ u16_bytes v @ post) (int (length pre)) = Inr v"
  using read_bytes_append [of pre "u16_bytes v" post]
  by (simp add: read_u16_def big_endian_u16_bytes)

lemma read_u16_wire_at:
  "p = int (length pre) \<Longrightarrow> buf = pre @ u16_bytes v @ post \<Longrightarrow> read_u16 buf p = Inr v"
  by (simp add: read_u16_wire)

lemma length_wire_field [simp]: "length (wire_field f) = 4"
  by (simp add: wire_field_def)

lemma length_concat_wire_field [simp]: "length (concat (map wire_field flds)) = 4 * length flds"
  by (induction flds) simp_all

lemma length_wire_template:
  "length (wire_template r) = 4 + 4 * length (snd r)"
  by (simp add: wire_template_def)

lemma field_specifier_eta [simp]: "\<lparr>type_fs = type_fs f, length_fs = length_fs f\<rparr> = f"
  by (cases f) simp

lemma field_loop_wire:
  "field_loop (pre @ concat (map wire_field flds) @ post) (length flds) (int (length pre)) acc
     = Inr (acc @ flds, int (length pre) + 4 * int (length flds))"
proof (induction flds arbitrary: pre acc)
  case Nil
  then show ?case by simp
next
  case (Cons f flds)
  let ?buf = "pre @ wire_field f @ concat (map wire_field flds) @ post"
  have t: "read_u16 ?buf (int (length pre)) = Inr (type_fs f)"
    by (rule read_u16_wire_at [where pre = pre and
          post = "u16_bytes (length_fs f) @ concat (map wire_field flds) @ post"])
       (simp_all add: wire_field_def)
  have l: "read_u16 ?buf (int (length pre) + 2) = Inr (length_fs f)"
    by (rule read_u16_wire_at [where pre = "pre @ u16_bytes (type_fs f)" and
          post = "concat (map wire_field flds) @ post"])
       (simp_all add: wire_field_def)
  have buf: "?buf = (pre @ wire_field f) @ concat (map wire_field flds) @ post"
    by simp
  have "field_loop ?buf (length flds) (int (length (pre @ wire_field f))) (acc @ [f])
          = Inr ((acc @ [f]) @ flds, int (length (pre @ wire_field f)) + 4 * int (length flds))"
    unfolding buf by (rule Cons.IH)
  then show ?case
    by (simp add: t l)
qed

lemma unat_of_nat_u16: "n \<le> 65535 \<Longrightarrow> unat (of_nat n :: 16 word) = n"
  by (simp add: unat_of_nat)

lemma template_loop_wire:
  "list_all wf_template recs \<Longrightarrow>
   template_loop (pre @ concat (map wire_template recs) @ post) (int (length pre))
       (int (length pre) + int (length (concat (map wire_template recs)))) tab
     = Inr (install_all tab recs)"
proof (induction recs arbitrary: pre tab)
  case Nil
  then show ?case
    by (simp add: template_loop.simps install_all_def)
next
  case (Cons r recs)
  obtain tid flds where r: "r = (tid, flds)"
    by (cases r)
  from Cons.prems have wf: "list_all wf_template recs"
    by simp
  from Cons.prems have n: "length flds \<le> 65535"
    by (simp add: r wf_template_def)
  let ?buf = "pre @ concat (map wire_template (r # recs)) @ post"
  let ?tail = "concat (map wire_template recs) @ post"
  have id: "read_u16 ?buf (int (length pre)) = Inr tid"
    by (rule read_u16_wire_at [where pre = pre and
          post = "u16_bytes (of_nat (length flds)) @ concat (map wire_field flds) @ ?tail"])
       (simp_all add: r wire_template_def)
  have cnt: "read_u16 ?buf (int (length pre) + 2) = Inr (of_nat (length flds))"
    by (rule read_u16_wire_at [where pre = "pre @ u16_bytes tid" and
          post = "concat (map wire_field flds) @ ?tail"])
       (simp_all add: r wire_template_def)
  have buf1: "?buf = (pre @ u16_bytes tid @ u16_bytes (of_nat (length flds)))
                     @ concat (map wire_field flds) @ ?tail"
    by (simp add: r wire_template_def)
  have fl: "field_loop ?buf (length flds) (int (length pre) + 4) []
              = Inr (flds, int (length pre) + 4 + 4 * int (length flds))"
    unfolding buf1
    using field_loop_wire [of "pre @ u16_bytes tid @ u16_bytes (of_nat (length flds))" flds ?tail "[]"]
    by (simp add: add.commute)
  have buf2: "?buf = (pre @ wire_template r) @ concat (map wire_template recs) @ post"
    by simp
  have next_ptr: "int (length (pre @ wire_template r)) = int (length pre) + 4 + 4 * int (length flds)"
    by (simp add: r length_wire_template)
  have end_eq: "int (length pre) + int (length (concat (map wire_template (r # recs))))
                = int (length (pre @ wire_template r)) + int (length (concat (map wire_template recs)))"
    by simp
  have ih: "template_loop ?buf (int (length (pre @ wire_template r)))
              (int (length (pre @ wire_template r)) + int (length (concat (map wire_template recs))))
              (tab(tid \<mapsto> flds)) = Inr (install_all (tab(tid \<mapsto> flds)) recs)"
    unfolding buf2 by (rule Cons.IH [OF wf])
  have pos: "int (length pre) < int (length pre) + int (length (concat (map wire_template (r # recs))))"
    by (simp add: r length_wire_template)
  show ?case
    apply (subst template_loop.simps)
    apply (simp only: pos if_True id cnt sum.case fl prod.case unat_of_nat_u16 [OF n])
    apply (simp only: end_eq)
    apply (simp only: next_ptr [symmetric] ih)
    apply (simp add: install_all_def install_def r)
    done
qed

lemma insert_record_simps [simp]:
  "inserted (insert_record env fd sonda) = inserted sonda @ [fd]"
  "templates (insert_record env fd sonda) = templates sonda"
  "config_name (insert_record env fd sonda) = config_name sonda"
  by (simp_all add: insert_record_def log_line_def Let_def)

lemma log_line_simps [simp]:
  "inserted (log_line msg sonda) = inserted sonda"
  "templates (log_line msg sonda) = templates sonda"
  "config_name (log_line msg sonda) = config_name sonda"
  "cerr (log_line msg sonda) = cerr sonda @ [msg]"
  by (simp_all add: log_line_def)

lemma record_loop_frame_aux:
  assumes run: "record_loop env buf flds W p e sonda = Some r"
  shows "record_loop_keeps sonda r"
proof (rule record_loop.raw_induct
    [OF _ run, where P = "\<lambda>env buf flds W p e sonda r. record_loop_keeps sonda r"], goal_cases)
  case (1 rl env buf flds W p e sonda r)
  show ?case
  proof (cases "p + W \<le> e")
    case True
    show ?thesis
    proof (cases "field_walk buf p flds 0 (new_FlowData (indeterminate env (length (inserted sonda))))")
      case (Inl err)
      with True 1(2) show ?thesis
        by (auto simp: record_loop_keeps_def)
    next
      case (Inr fd)
      with True 1(2) have
        "rl env buf flds W (p + W) e
           (insert_record env (fd\<lparr>SourceSond := config_name sonda\<rparr>) sonda) = Some r"
        by simp
      from 1(1) [OF this] show ?thesis
        by (simp add: record_loop_keeps_def split: sum.splits)
    qed
  next
    case False
    with 1(2) show ?thesis
      by (auto simp: record_loop_keeps_def)
  qed
qed

lemma record_loop_frame:
  "record_loop env buf flds W p e sonda = Some (Inr sonda') \<Longrightarrow>
   templates sonda' = templates sonda \<and> config_name sonda' = config_name sonda"
  by (drule record_loop_frame_aux) (simp add: record_loop_keeps_def)

lemma read_bytes_ok:
  "0 \<le> p \<Longrightarrow> p + int k \<le> int (length buf) \<Longrightarrow> \<exists>bs. read_bytes buf p k = Inr bs"
  by (simp add: read_bytes_def)

lemma decode_field_ok:
  assumes "0 \<le> p" "p + 4 \<le> int (length buf)"
  shows "\<exists>fd'. decode_field buf p t fd = Inr fd'"
proof -
  from assms have "\<exists>bs. read_bytes buf p 4 = Inr bs" "\<exists>bs. read_bytes buf p 2 = Inr bs"
    "\<exists>bs. read_bytes buf p 1 = Inr bs"
    by (simp_all add: read_bytes_def)
  then show ?thesis
    by (auto simp: decode_field_def read_in_addr_def read_u16_def read_u8_def read_u32_def)
qed

lemma recordLength_Cons [simp]:
  "recordLength (f # flds) = uint (length_fs f) + recordLength flds"
  "recordLength [] = 0"
  by (simp_all add: recordLength_def)

lemma recordLength_nonneg: "0 \<le> recordLength flds"
  by (induction flds) simp_all

lemma field_walk_ok:
  "0 \<le> rp + off \<Longrightarrow> rp + off + recordLength flds + 4 \<le> int (length buf) \<Longrightarrow>
   \<exists>fd'. field_walk buf rp flds off fd = Inr fd'"
proof (induction flds arbitrary: off fd)
  case Nil
  then show ?case by simp
next
  case (Cons f flds)
  have n: "0 \<le> recordLength flds" "0 \<le> uint (length_fs f)"
    by (simp_all add: recordLength_nonneg)
  from Cons.prems n have "rp + off + 4 \<le> int (length buf)"
    unfolding recordLength_Cons by linarith
  with Cons.prems(1) obtain fd' where d: "decode_field buf (rp + off) (type_fs f) fd = Inr fd'"
    using decode_field_ok by blast
  have "\<exists>fd''. field_walk buf rp flds (off + uint (length_fs f)) fd' = Inr fd''"
  proof (rule Cons.IH)
    show "0 \<le> rp + (off + uint (length_fs f))"
      using Cons.prems(1) n by linarith
    show "rp + (off + uint (length_fs f)) + recordLength flds + 4 \<le> int (length buf)"
      using Cons.prems(2) unfolding recordLength_Cons by linarith
  qed
  with d show ?case
    by simp
qed

lemma record_loop_total:
  assumes W: "0 < recordLength flds" and e: "e + 4 \<le> int (length buf)"
  shows "0 \<le> p \<Longrightarrow>
         \<exists>sonda' new. record_loop env buf flds (recordLength flds) p e sonda = Some (Inr sonda')
           \<and> inserted sonda' = inserted sonda @ new
           \<and> length new = nat ((e - p) div recordLength flds)"
proof (induction "nat (e - p)" arbitrary: p sonda rule: less_induct)
  case less
  let ?W = "recordLength flds"
  show ?case
  proof (cases "p + ?W \<le> e")
    case True
    have "\<exists>fd. field_walk buf p flds 0
                 (new_FlowData (indeterminate env (length (inserted sonda)))) = Inr fd"
      using less.prems True e by (intro field_walk_ok) simp_all
    then obtain fd where fd:
      "field_walk buf p flds 0 (new_FlowData (indeterminate env (length (inserted sonda)))) = Inr fd"
      by blast
    let ?sonda1 = "insert_record env (fd\<lparr>SourceSond := config_name sonda\<rparr>) sonda"
    have smaller: "nat (e - (p + ?W)) < nat (e - p)"
      using True W by simp
    have nonneg: "0 \<le> p + ?W"
      using less.prems W by simp
    from less.hyps [OF smaller nonneg, of ?sonda1] obtain sonda' new where
      run: "record_loop env buf flds ?W (p + ?W) e ?sonda1 = Some (Inr sonda')" and
      app: "inserted sonda' = inserted ?sonda1 @ new" and
      cnt: "length new = nat ((e - (p + ?W)) div ?W)"
      by blast
    have "(e - p) div ?W = ((e - (p + ?W)) + ?W) div ?W"
      by simp
    also have "\<dots> = (e - (p + ?W)) div ?W + 1"
      using W by (subst div_add_self2) simp_all
    finally have "(e - (p + ?W)) div ?W = (e - p) div ?W - 1"
      by simp
    moreover have "0 < (e - p) div ?W"
      using True W by (subst pos_imp_zdiv_pos_iff) simp_all
    ultimately have "nat ((e - (p + ?W)) div ?W) + 1 = nat ((e - p) div ?W)"
      by simp
    with cnt have "length (fd\<lparr>SourceSond := config_name sonda\<rparr> # new) = nat ((e - p) div ?W)"
      by simp
    moreover have "inserted sonda' = inserted sonda @ fd\<lparr>SourceSond := config_name sonda\<rparr> # new"
      using app by simp
    moreover have "record_loop env buf flds ?W p e sonda = Some (Inr sonda')"
      using True fd run by (subst record_loop.simps) simp
    ultimately show ?thesis
      by blast
  next
    case False
    then have "\<not> 0 < (e - p) div ?W"
      using W by (subst pos_imp_zdiv_pos_iff) simp_all
    then have "(e - p) div ?W \<le> 0"
      by simp
    moreover have "record_loop env buf flds ?W p e sonda = Some (Inr sonda)"
      using False by (subst record_loop.simps) simp
    ultimately show ?thesis
      by simp
  qed
qed

lemma length_wire_flowset: "length (wire_flowset fs) = 4 + length (flowset_body fs)"
  by (simp add: wire_flowset_def)

lemma wf_flowset_length: "wf_flowset fs \<Longrightarrow> 4 + length (flowset_body fs) \<le> 65535"
  by (cases fs) simp_all

lemma uint_of_nat_u16: "n \<le> 65535 \<Longrightarrow> uint (of_nat n :: 16 word) = int n"
  using unat_of_nat_u16 [of n] by (simp add: uint_nat del: of_nat_unat)

lemma flowset_loop_wire_header:
  assumes wf: "wf_flowset fs"
    and buf: "buf = pre @ wire_flowset fs @ rest"
    and len: "len = int (length (wire_flowset fs)) + k" "0 \<le> k" "len < 2 ^ 62"
  shows "flowset_loop env buf (int (length pre)) len sonda =
     (if flowset_id fs = 0 then
        (case template_loop buf (int (length pre) + 4) (int (length (pre @ wire_flowset fs)))
                (templates sonda) of
           Inl e \<Rightarrow> Some (Inl e)
         | Inr tab \<Rightarrow>
             flowset_loop env buf (int (length (pre @ wire_flowset fs))) k
               (sonda\<lparr>templates := tab\<rparr>))
      else if flowset_id fs > 255 then
        (case templates sonda (flowset_id fs) of
           None \<Rightarrow>
             flowset_loop env buf (int (length (pre @ wire_flowset fs))) k
               (log_line (''Unknown template ID: '' @ decimal (unat (flowset_id fs))) sonda)
         | Some flds \<Rightarrow>
             (case record_loop env buf flds (recordLength flds) (int (length pre) + 4)
                     (int (length (pre @ wire_flowset fs))) sonda of
                None \<Rightarrow> None
              | Some (Inl e) \<Rightarrow> Some (Inl e)
              | Some (Inr sonda') \<Rightarrow>
                  flowset_loop env buf (int (length (pre @ wire_flowset fs))) k sonda'))
      else flowset_loop env buf (int (length (pre @ wire_flowset fs))) k sonda)"
proof -
  let ?L = "of_nat (4 + length (flowset_body fs)) :: 16 word"
  have "uint ?L = int (4 + length (flowset_body fs))"
    by (rule uint_of_nat_u16) (rule wf_flowset_length [OF wf])
  then have uL: "uint ?L = int (length (wire_flowset fs))"
    by (simp only: length_wire_flowset)
  have id: "read_u16 buf (int (length pre)) = Inr (flowset_id fs)"
    by (rule read_u16_wire_at [where pre = pre and
          post = "u16_bytes ?L @ flowset_body fs @ rest"])
       (simp_all add: buf wire_flowset_def)
  have fl: "read_u16 buf (int (length pre) + 2) = Inr ?L"
    by (rule read_u16_wire_at [where pre = "pre @ u16_bytes (flowset_id fs)" and
          post = "flowset_body fs @ rest"])
       (simp_all add: buf wire_flowset_def)
  have l4: "4 \<le> len"
    using len by (simp add: length_wire_flowset)
  have fits: "\<not> uint ?L > len"
    using len uL by simp
  have nxt: "int (length pre) + uint ?L = int (length (pre @ wire_flowset fs))"
    using uL by simp
  have rem: "len - uint ?L = k"
    using len uL by simp
  show ?thesis
    by (subst flowset_loop_header [OF l4 len(3) id fl]) (simp only: fits if_False nxt rem)
qed

lemma install_all_append: "install_all tab (a @ b) = install_all (install_all tab a) b"
  by (simp add: install_all_def)

lemma flowset_loop_template_flowset:
  assumes wf: "wf_flowset (TemplateFlowSet recs)"
    and buf: "buf = pre @ wire_flowset (TemplateFlowSet recs) @ rest"
    and len: "len = int (length (wire_flowset (TemplateFlowSet recs))) + k" "0 \<le> k" "len < 2 ^ 62"
  shows "flowset_loop env buf (int (length pre)) len sonda =
         flowset_loop env buf (int (length (pre @ wire_flowset (TemplateFlowSet recs)))) k
           (sonda\<lparr>templates := install_all (templates sonda) recs\<rparr>)"
proof -
  let ?fs = "TemplateFlowSet recs"
  let ?hd = "u16_bytes 0 @ u16_bytes (of_nat (4 + length (flowset_body ?fs)))"
  have b: "buf = (pre @ ?hd) @ concat (map wire_template recs) @ rest"
    by (simp add: buf wire_flowset_def)
  have p: "int (length pre) + 4 = int (length (pre @ ?hd))"
    by simp
  have e: "int (length (pre @ wire_flowset ?fs))
            = int (length (pre @ ?hd)) + int (length (concat (map wire_template recs)))"
    by (simp add: wire_flowset_def)
  from wf have "list_all wf_template recs"
    by simp
  then have t: "template_loop buf (int (length pre) + 4) (int (length (pre @ wire_flowset ?fs)))
                  (templates sonda) = Inr (install_all (templates sonda) recs)"
    unfolding p e b by (rule template_loop_wire)
  show ?thesis
    by (subst flowset_loop_wire_header [OF wf buf len])
       (simp only: flowset_id.simps simp_thms if_True t sum.case)
qed

lemma flowset_loop_other_flowset:
  assumes wf: "wf_flowset (FlowSet fid body)"
    and buf: "buf = pre @ wire_flowset (FlowSet fid body) @ rest"
    and len: "len = int (length (wire_flowset (FlowSet fid body))) + k" "0 \<le> k" "len < 2 ^ 62"
  shows "flowset_loop env buf (int (length pre)) len sonda =
     (if fid > 255 then
        (case templates sonda fid of
           None \<Rightarrow>
             flowset_loop env buf (int (length (pre @ wire_flowset (FlowSet fid body)))) k
               (log_line (''Unknown template ID: '' @ decimal (unat fid)) sonda)
         | Some flds \<Rightarrow>
             (case record_loop env buf flds (recordLength flds) (int (length pre) + 4)
                     (int (length (pre @ wire_flowset (FlowSet fid body)))) sonda of
                None \<Rightarrow> None
              | Some (Inl e) \<Rightarrow> Some (Inl e)
              | Some (Inr sonda') \<Rightarrow>
                  flowset_loop env buf (int (length (pre @ wire_flowset (FlowSet fid body)))) k sonda'))
      else flowset_loop env buf (int (length (pre @ wire_flowset (FlowSet fid body)))) k sonda)"
proof -
  from wf have fid: "fid \<noteq> 0"
    by simp
  show ?thesis
    by (subst flowset_loop_wire_header [OF wf buf len])
       (simp only: flowset_id.simps fid if_False)
qed

lemma flowset_loop_wire_templates:
  assumes "list_all wf_flowset fss"
    and "int (length (concat (map wire_flowset fss))) < 2 ^ 62"
    and "flowset_loop env (pre @ concat (map wire_flowset fss) @ slack) (int (length pre))
           (int (length (concat (map wire_flowset fss)))) sonda = Some (Inr sonda')"
  shows "templates sonda' = install_all (templates sonda) (template_records fss)"
  using assms
proof (induction fss arbitrary: pre sonda)
  case Nil
  then show ?case
    by (simp add: flowset_loop_done install_all_def)
next
  case (Cons fs fss)
  let ?buf = "pre @ concat (map wire_flowset (fs # fss)) @ slack"
  let ?k = "int (length (concat (map wire_flowset fss)))"
  have buf: "?buf = pre @ wire_flowset fs @ (concat (map wire_flowset fss) @ slack)"
    by simp
  have buf': "?buf = (pre @ wire_flowset fs) @ concat (map wire_flowset fss) @ slack"
    by simp
  have len: "int (length (concat (map wire_flowset (fs # fss)))) = int (length (wire_flowset fs)) + ?k"
    by simp
  have k: "0 \<le> ?k" "?k < 2 ^ 62"
    using Cons.prems(2) by simp_all
  from Cons.prems(1) have wf: "wf_flowset fs" and wfs: "list_all wf_flowset fss"
    by simp_all
  note ih = Cons.IH [OF wfs k(2), of "pre @ wire_flowset fs", folded buf']
  show ?case
  proof (cases fs)
    case (TemplateFlowSet recs)
    from Cons.prems(3) have
      "flowset_loop env ?buf (int (length (pre @ wire_flowset fs))) ?k
         (sonda\<lparr>templates := install_all (templates sonda) recs\<rparr>) = Some (Inr sonda')"
      using flowset_loop_template_flowset [OF wf [unfolded TemplateFlowSet]
          buf [unfolded TemplateFlowSet] len [unfolded TemplateFlowSet] k(1) Cons.prems(2) [unfolded TemplateFlowSet]]
      by (simp add: TemplateFlowSet)
    from ih [OF this] show ?thesis
      by (simp add: TemplateFlowSet install_all_append)
  next
    case (FlowSet fid body)
    note step = flowset_loop_other_flowset [OF wf [unfolded FlowSet] buf [unfolded FlowSet]
        len [unfolded FlowSet] k(1) Cons.prems(2) [unfolded FlowSet], of env sonda, folded FlowSet]
    have "\<exists>sonda1. templates sonda1 = templates sonda \<and>
            flowset_loop env ?buf (int (length (pre @ wire_flowset fs))) ?k sonda1 = Some (Inr sonda')"
    proof (cases "255 < fid")
      case False
      with Cons.prems(3) step show ?thesis
        by auto
    next
      case True
      show ?thesis
      proof (cases "templates sonda fid")
        case None
        with True Cons.prems(3) step have
          "flowset_loop env ?buf (int (length (pre @ wire_flowset fs))) ?k
             (log_line (''Unknown template ID: '' @ decimal (unat fid)) sonda) = Some (Inr sonda')"
          by simp
        then show ?thesis
          by (intro exI [of _ "log_line (''Unknown template ID: '' @ decimal (unat fid)) sonda"]) simp
      next
        case (Some flds)
        with True Cons.prems(3) step obtain sonda1 where
          r: "record_loop env ?buf flds (recordLength flds) (int (length pre) + 4)
                (int (length (pre @ wire_flowset fs))) sonda = Some (Inr sonda1)" and
          c: "flowset_loop env ?buf (int (length (pre @ wire_flowset fs))) ?k sonda1 = Some (Inr sonda')"
          by (auto split: option.splits sum.splits)
        from record_loop_frame [OF r] c show ?thesis
          by blast
      qed
    qed
    then obtain sonda1 where t: "templates sonda1 = templates sonda" and
      c: "flowset_loop env ?buf (int (length (pre @ wire_flowset fs))) ?k sonda1 = Some (Inr sonda')"
      by blast
    from ih [OF c] t show ?thesis
      by (simp add: FlowSet)
  qed
qed

lemma flowset_loop_wire_count:
  assumes "list_all wf_flowset fss"
    and "int (length (concat (map wire_flowset fss))) < 2 ^ 62"
    and "widths_positive (templates sonda) fss"
    and slack: "4 \<le> length slack"
  shows "\<exists>sonda'.
           flowset_loop env (pre @ concat (map wire_flowset fss) @ slack) (int (length pre))
             (int (length (concat (map wire_flowset fss)))) sonda = Some (Inr sonda')
         \<and> (\<exists>new. inserted sonda' = inserted sonda @ new
                \<and> length new = records_due (templates sonda) fss)"
  using assms(1-3)
proof (induction fss arbitrary: pre sonda)
  case Nil
  then show ?case
    by (simp add: flowset_loop_done)
next
  case (Cons fs fss)
  let ?buf = "pre @ concat (map wire_flowset (fs # fss)) @ slack"
  let ?k = "int (length (concat (map wire_flowset fss)))"
  let ?next = "int (length (pre @ wire_flowset fs))"
  have buf: "?buf = pre @ wire_flowset fs @ (concat (map wire_flowset fss) @ slack)"
    by simp
  have buf': "?buf = (pre @ wire_flowset fs) @ concat (map wire_flowset fss) @ slack"
    by simp
  have len: "int (length (concat (map wire_flowset (fs # fss)))) = int (length (wire_flowset fs)) + ?k"
    by simp
  have k: "0 \<le> ?k" "?k < 2 ^ 62"
    using Cons.prems(2) by simp_all
  from Cons.prems(1) have wf: "wf_flowset fs" and wfs: "list_all wf_flowset fss"
    by simp_all
  note ih = Cons.IH [OF wfs k(2), of _ "pre @ wire_flowset fs", folded buf']
  show ?case
  proof (cases fs)
    case (TemplateFlowSet recs)
    let ?sonda1 = "sonda\<lparr>templates := install_all (templates sonda) recs\<rparr>"
    have step: "flowset_loop env ?buf (int (length pre))
                  (int (length (concat (map wire_flowset (fs # fss))))) sonda
                = flowset_loop env ?buf ?next ?k ?sonda1"
      using flowset_loop_template_flowset [OF wf [unfolded TemplateFlowSet]
          buf [unfolded TemplateFlowSet] len [unfolded TemplateFlowSet] k(1)
          Cons.prems(2) [unfolded TemplateFlowSet], of env sonda]
      by (simp only: TemplateFlowSet)
    from Cons.prems(3) have "widths_positive (templates ?sonda1) fss"
      by (simp add: TemplateFlowSet)
    from ih [OF this] obtain sonda' new where
      "flowset_loop env ?buf ?next ?k ?sonda1 = Some (Inr sonda')"
      "inserted sonda' = inserted ?sonda1 @ new"
      "length new = records_due (templates ?sonda1) fss"
      by blast
    with step show ?thesis
      by (intro exI [of _ sonda']) (simp add: TemplateFlowSet)
  next
    case (FlowSet fid body)
    note step = flowset_loop_other_flowset [OF wf [unfolded FlowSet] buf [unfolded FlowSet]
        len [unfolded FlowSet] k(1) Cons.prems(2) [unfolded FlowSet], of env sonda, folded FlowSet]
    from Cons.prems(3) have wp: "widths_positive (templates sonda) fss"
      by (simp add: FlowSet)
    have "\<exists>sonda1 new1. templates sonda1 = templates sonda
            \<and> inserted sonda1 = inserted sonda @ new1
            \<and> length new1
                 = (if 255 < fid
                    then (case templates sonda fid of None \<Rightarrow> 0
                          | Some flds \<Rightarrow> nat (int (length body) div recordLength flds))
                    else 0)
            \<and> flowset_loop env ?buf (int (length pre))
                  (int (length (concat (map wire_flowset (fs # fss))))) sonda
                = flowset_loop env ?buf ?next ?k sonda1"
    proof (cases "255 < fid")
      case False
      with step show ?thesis
        by (intro exI [of _ sonda] exI [of _ "[]"]) simp
    next
      case True
      show ?thesis
      proof (cases "templates sonda fid")
        case None
        with True step show ?thesis
          by (intro exI [of _ "log_line (''Unknown template ID: '' @ decimal (unat fid)) sonda"]
                exI [of _ "[]"]) simp
      next
        case (Some flds)
        from Cons.prems(3) True Some have W: "0 < recordLength flds"
          by (simp add: FlowSet)
        have e: "?next + 4 \<le> int (length ?buf)"
          using slack by simp
        have p: "0 \<le> int (length pre) + 4"
          by simp
        from record_loop_total [OF W e p, of env sonda] obtain sonda1 new1 where
          r: "record_loop env ?buf flds (recordLength flds) (int (length pre) + 4) ?next sonda
                = Some (Inr sonda1)" and
          a: "inserted sonda1 = inserted sonda @ new1" and
          c: "length new1 = nat ((?next - (int (length pre) + 4)) div recordLength flds)"
          by blast
        have "?next - (int (length pre) + 4) = int (length body)"
          by (simp add: FlowSet length_wire_flowset)
        with c have c': "length new1 = nat (int (length body) div recordLength flds)"
          by simp
        from record_loop_frame [OF r] have t: "templates sonda1 = templates sonda"
          by simp
        from True Some step r have
          "flowset_loop env ?buf (int (length pre))
             (int (length (concat (map wire_flowset (fs # fss))))) sonda
           = flowset_loop env ?buf ?next ?k sonda1"
          by simp
        with t a c' True Some show ?thesis
          by (intro exI [of _ sonda1] exI [of _ new1]) simp
      qed
    qed
    then obtain sonda1 new1 where t: "templates sonda1 = templates sonda" and
      a: "inserted sonda1 = inserted sonda @ new1" and
      n: "length new1
                 = (if 255 < fid
                    then (case templates sonda fid of None \<Rightarrow> 0
                          | Some flds \<Rightarrow> nat (int (length body) div recordLength flds))
                    else 0)" and
      c: "flowset_loop env ?buf (int (length pre))
                  (int (length (concat (map wire_flowset (fs # fss))))) sonda
                = flowset_loop env ?buf ?next ?k sonda1"
      by blast
    from wp t have "widths_positive (templates sonda1) fss"
      by simp
    from ih [OF this] obtain sonda' new where
      "flowset_loop env ?buf ?next ?k sonda1 = Some (Inr sonda')"
      "inserted sonda' = inserted sonda1 @ new"
      "length new = records_due (templates sonda1) fss"
      by blast
    with c a n t show ?thesis
      by (intro exI [of _ sonda']) (simp add: FlowSet)
  qed
qed

lemma field_loop_numeral:
  "field_loop buf (numeral n) p flds =
     (case read_u16 buf p of Inl e \<Rightarrow> Inl e | Inr t \<Rightarrow>
       (case read_u16 buf (p + 2) of Inl e \<Rightarrow> Inl e | Inr l \<Rightarrow>
          field_loop buf (pred_numeral n) (p + 4) (flds @ [\<lparr>type_fs = t, length_fs = l\<rparr>])))"
  by (simp add: numeral_eq_Suc)

lemma flowset_loop_unfold:
  assumes len: "4 \<le> len" "len < 2 ^ 62"
  shows "flowset_loop env buf ptr len sonda =
     (case read_u16 buf ptr of Inl e \<Rightarrow> Some (Inl e) | Inr flowsetID \<Rightarrow>
     (case read_u16 buf (ptr + 2) of Inl e \<Rightarrow> Some (Inl e) | Inr flowsetLength \<Rightarrow>
     (if uint flowsetLength > len
      then Some (Inr (log_line ''FlowSet length exceeds remaining packet length.'' sonda))
      else if flowsetID = 0 then
        (case template_loop buf (ptr + 4) (ptr + uint flowsetLength) (templates sonda) of
           Inl e \<Rightarrow> Some (Inl e)
         | Inr tab \<Rightarrow>
             flowset_loop env buf (ptr + uint flowsetLength) (len - uint flowsetLength)
               (sonda\<lparr>templates := tab\<rparr>))
      else if flowsetID > 255 then
        (case templates sonda flowsetID of
           None \<Rightarrow>
             flowset_loop env buf (ptr + uint flowsetLength) (len - uint flowsetLength)
               (log_line (''Unknown template ID: '' @ decimal (unat flowsetID)) sonda)
         | Some flds \<Rightarrow>
             (case record_loop env buf flds (recordLength flds) (ptr + 4)
                     (ptr + uint flowsetLength) sonda of
                None \<Rightarrow> None
              | Some (Inl e) \<Rightarrow> Some (Inl e)
              | Some (Inr sonda') \<Rightarrow>
                  flowset_loop env buf (ptr + uint flowsetLength) (len - uint flowsetLength) sonda'))
      else flowset_loop env buf (ptr + uint flowsetLength) (len - uint flowsetLength) sonda)))"
proof (cases "read_u16 buf ptr")
  case (Inl e)
  then show ?thesis
    using len by (subst flowset_loop.simps) simp
next
  case id: (Inr flowsetID)
  show ?thesis
  proof (cases "read_u16 buf (ptr + 2)")
    case (Inl e)
    then show ?thesis
      using len id by (subst flowset_loop.simps) simp
  next
    case fl: (Inr flowsetLength)
    show ?thesis
      by (subst flowset_loop_header [OF len id fl]) (simp only: id fl sum.case)
  qed
qed

lemma processNetFlowV9Data_unfold:
  "0 \<le> len \<Longrightarrow> len < 2 ^ 62 \<Longrightarrow>
   processNetFlowV9Data env buf len sonda =
     (case read_u16 buf 2 of Inl e \<Rightarrow> Some (Inl e)
      | Inr count \<Rightarrow> flowset_loop env buf 20 (len - 20) sonda)"
proof -
  assume "0 \<le> len" "len < 2 ^ 62"
  then have "ssize_t (size_t len - 20) = len - 20"
    by (intro ssize_t_size_t_minus_const) simp_all
  then show ?thesis
    by (simp add: processNetFlowV9Data_def cong: sum.case_cong)
qed

lemmas eval_read = read_u16_def read_u32_def read_u8_def read_bytes_def read_in_addr_def
lemmas eval_loops = processNetFlowV9Data_unfold flowset_loop_unfold flowset_loop_done
  flowset_loop_incomplete template_loop.simps field_loop_numeral

text \<open>
  C1 (fails on the code). A datagram of 28 bytes: the header and one template FlowSet of
  length 8 whose only template record announces one field specifier and ends there. The
  FlowSet's length is checked against the datagram, the template record's field count
  against nothing: the decoder reads the field specifier at the offsets 28 to 31. When
  the allocation ends with the datagram this read leaves it; when four more bytes
  \<open>s0 s1 s2 s3\<close> follow the 28 received ones, the template 256 is installed with a
  field made of them.
\<close>

theorem template_record_read_past_datagram:
  "processNetFlowV9Data env short_template_datagram 28 sonda = Some (Inl ReadOutsideBuffer)
   \<and> processNetFlowV9Data env (short_template_datagram @ [s0, s1, s2, s3]) 28 sonda
        = Some (Inr (sonda\<lparr>templates := (templates sonda)
             (256 \<mapsto> [\<lparr>type_fs = of_nat (big_endian [s0, s1]),
                        length_fs = of_nat (big_endian [s2, s3])\<rparr>])\<rparr>))"
  by (simp add: short_template_datagram_def header20_def eval_loops eval_read)

text \<open>
  C5 (fails on the code). The first FlowSet header of this datagram has the length 2. No
  diagnostic is written and the walk does not stop: it goes on 2 bytes further, takes
  the bytes \<open>00 02 00 04\<close> there for a FlowSet header, and then decodes the template
  FlowSet behind it, which installs the template 256.
\<close>

theorem short_flowset_length_not_rejected:
  "processNetFlowV9Data env short_length_datagram 38 sonda
     = Some (Inr (sonda\<lparr>templates :=
         (templates sonda)(256 \<mapsto> [\<lparr>type_fs = 1, length_fs = 4\<rparr>])\<rparr>))"
  by (simp add: short_length_datagram_def header20_def eval_loops eval_read)

lemma record_loop_zero_width:
  assumes W: "recordLength flds = 0" and p: "0 \<le> p" "p \<le> e" "p + 4 \<le> int (length buf)"
  shows "record_loop env buf flds 0 p e sonda = None"
proof (cases "record_loop env buf flds 0 p e sonda")
  case None
  then show ?thesis .
next
  case (Some r)
  have "\<not> (recordLength flds = 0 \<and> 0 \<le> p \<and> p \<le> e \<and> p + 4 \<le> int (length buf) \<and> (0::int) = 0)"
  proof (rule record_loop.raw_induct [OF _ Some, where P = "\<lambda>env buf flds W p e sonda r.
      \<not> (recordLength flds = 0 \<and> 0 \<le> p \<and> p \<le> e \<and> p + 4 \<le> int (length buf) \<and> W = 0)"],
      goal_cases)
    case (1 rl env buf flds W p e sonda r)
    show ?case
    proof
      assume a: "recordLength flds = 0 \<and> 0 \<le> p \<and> p \<le> e \<and> p + 4 \<le> int (length buf) \<and> W = 0"
      then have "\<exists>fd. field_walk buf p flds 0
                   (new_FlowData (indeterminate env (length (inserted sonda)))) = Inr fd"
        by (intro field_walk_ok) simp_all
      then obtain fd where
        "field_walk buf p flds 0 (new_FlowData (indeterminate env (length (inserted sonda)))) = Inr fd"
        by blast
      with a 1(2) have
        "rl env buf flds W (p + W) e
           (insert_record env (fd\<lparr>SourceSond := config_name sonda\<rparr>) sonda) = Some r"
        by simp
      from 1(1) [OF this] a show False
        by simp
    qed
  qed
  with assms show ?thesis
    by simp
qed

lemma zero_width_record_loop:
  "record_loop env zero_width_datagram [\<lparr>type_fs = 1, length_fs = 0\<rparr>] 0 36 40 sonda = None"
  by (rule record_loop_zero_width) (simp_all add: zero_width_datagram_def header20_def)

text \<open>
  C2 (fails on the code). The datagram installs the template 256 with one field of length
  0 and then sends a data FlowSet with the id 256 and a body of 4 bytes. The record loop
  moves \<^verbatim>\<open>recordPtr\<close> by 0 bytes in each round and hands one record to the database in
  each round: the decoder does not return.
\<close>

theorem zero_width_template_never_returns:
  "processNetFlowV9Data env zero_width_datagram 40 sonda = None"
proof -
  have cnt: "read_u16 zero_width_datagram 2 = Inr 1"
    by (simp add: zero_width_datagram_def header20_def eval_read)
  have h1: "read_u16 zero_width_datagram 20 = Inr 0" "read_u16 zero_width_datagram 22 = Inr 12"
    by (simp_all add: zero_width_datagram_def header20_def eval_read)
  have t: "template_loop zero_width_datagram 24 32 (templates sonda)
             = Inr ((templates sonda)(256 \<mapsto> [\<lparr>type_fs = 1, length_fs = 0\<rparr>]))"
    by (simp add: zero_width_datagram_def header20_def template_loop.simps eval_read)
  have h2: "read_u16 zero_width_datagram 32 = Inr 256" "read_u16 zero_width_datagram 34 = Inr 8"
    by (simp_all add: zero_width_datagram_def header20_def eval_read)
  show ?thesis
    by (simp add: processNetFlowV9Data_unfold flowset_loop_unfold cnt h1 h2 t
        zero_width_record_loop)
qed

lemma install_all_Cons: "install_all tab (r # recs) = install_all (install tab r) recs"
  by (simp add: install_all_def)

lemma install_all_other: "tid \<notin> fst ` set recs \<Longrightarrow> install_all tab recs tid = tab tid"
  by (induction recs arbitrary: tab) (simp_all add: install_all_Cons install_def install_all_def)

lemma install_all_last:
  "tid \<notin> fst ` set after \<Longrightarrow> install_all tab (before @ (tid, flds) # after) tid = Some flds"
  by (simp add: install_all_append install_all_Cons install_all_other install_def)

lemma read_u16_header_ok: "4 \<le> length buf \<Longrightarrow> \<exists>count. read_u16 buf 2 = Inr count"
  by (simp add: read_u16_def read_bytes_def)

lemma processNetFlowV9Data_wire:
  assumes h: "length header = 20" and n: "length (wire_datagram header fss) \<le> 65536"
  shows "processNetFlowV9Data env (wire_datagram header fss @ slack)
           (int (length (wire_datagram header fss))) sonda
         = flowset_loop env (header @ concat (map wire_flowset fss) @ slack) (int (length header))
             (int (length (concat (map wire_flowset fss)))) sonda"
proof -
  let ?buf = "wire_datagram header fss @ slack"
  let ?len = "int (length (wire_datagram header fss))"
  have "4 \<le> length ?buf"
    using h by (simp add: wire_datagram_def)
  then obtain count where c: "read_u16 ?buf 2 = Inr count"
    using read_u16_header_ok by blast
  have r: "0 \<le> ?len" "?len < 2 ^ 62"
    using n by simp_all
  have l: "?len - 20 = int (length (concat (map wire_flowset fss)))"
    using h by (simp add: wire_datagram_def)
  have b: "?buf = header @ concat (map wire_flowset fss) @ slack"
    by (simp add: wire_datagram_def)
  have "processNetFlowV9Data env ?buf ?len sonda = flowset_loop env ?buf 20 (?len - 20) sonda"
    by (simp add: processNetFlowV9Data_unfold [OF r] c)
  then show ?thesis
    unfolding l b using h by simp
qed

text \<open>
  Where the template FlowSets of a datagram are made of whole template records and
  nothing else, and the decoder returns from the datagram, the template table holds, for
  every template id defined in a template FlowSet of the datagram, the field list of the
  last record that defines it, whatever the table held for that id before; for every
  other id it holds what it held before.
\<close>

lemma template_table_after_datagram:
  assumes "length header = 20"
    and "list_all wf_flowset fss"
    and "length (wire_datagram header fss) \<le> 65536"
    and "processNetFlowV9Data env (wire_datagram header fss @ slack)
           (int (length (wire_datagram header fss))) sonda = Some (Inr sonda')"
  shows "(\<forall>before tid flds after.
            template_records fss = before @ (tid, flds) # after \<and> tid \<notin> fst ` set after
              \<longrightarrow> templates sonda' tid = Some flds)
         \<and> (\<forall>tid. tid \<notin> fst ` set (template_records fss)
              \<longrightarrow> templates sonda' tid = templates sonda tid)"
proof -
  have k: "int (length (concat (map wire_flowset fss))) < 2 ^ 62"
    using assms(3) by (simp add: wire_datagram_def)
  from assms(4) have "flowset_loop env (header @ concat (map wire_flowset fss) @ slack)
      (int (length header)) (int (length (concat (map wire_flowset fss)))) sonda = Some (Inr sonda')"
    by (simp only: processNetFlowV9Data_wire [OF assms(1) assms(3)])
  from flowset_loop_wire_templates [OF assms(2) k this]
  have t: "templates sonda' = install_all (templates sonda) (template_records fss)" .
  show ?thesis
    unfolding t by (auto simp: install_all_last install_all_other)
qed

text \<open>
  C3, amended. The datagram is a header and FlowSets, the template FlowSets made of whole
  template records; at least 4 bytes of the buffer lie behind the datagram; every data
  FlowSet whose template is in the table when the FlowSet is reached (in the table before
  the datagram, or defined by an earlier template FlowSet of it) has a template of
  record length \<open>W > 0\<close>. Then the decoder returns, and the records it has handed to
  the database are those from before followed by \<open>records_due\<close> new ones: the sum, over
  those data FlowSets, of \<open>(length - 4) div W\<close>; what is left of a body after its last
  whole record yields no record, nor does a data FlowSet whose template is not in the
  table yet.
\<close>

theorem records_emitted_by_datagram:
  assumes "length header = 20"
    and "list_all wf_flowset fss"
    and "length (wire_datagram header fss) \<le> 65536"
    and "4 \<le> length slack"
    and "widths_positive (templates sonda) fss"
  shows "\<exists>sonda'.
           processNetFlowV9Data env (wire_datagram header fss @ slack)
             (int (length (wire_datagram header fss))) sonda = Some (Inr sonda')
         \<and> (\<exists>new. inserted sonda' = inserted sonda @ new
                \<and> length new = records_due (templates sonda) fss)"
proof -
  have k: "int (length (concat (map wire_flowset fss))) < 2 ^ 62"
    using assms(3) by (simp add: wire_datagram_def)
  show ?thesis
    unfolding processNetFlowV9Data_wire [OF assms(1) assms(3)]
    by (rule flowset_loop_wire_count [OF assms(2) k assms(5) assms(4)])
qed

lemmas eval_wire = wire_datagram_def wire_flowset_def wire_template_def wire_field_def u16_bytes_def

lemma redefining_wire:
  "wire_datagram header20 redefining_flowsets =
     header20 @ [0, 0, 0, 16, 1, 44, 0, 2, 0, 8, 0, 4, 0, 1, 0, 4]
       @ [0, 0, 0, 20, 1, 44, 0, 3, 0, 8, 0, 4, 0, 12, 0, 4, 0, 1, 0, 4]"
  by (simp add: redefining_flowsets_def eval_wire)

lemma redefining_run:
  "processNetFlowV9Data quiet_env (wire_datagram header20 redefining_flowsets @ [])
     (int (length (wire_datagram header20 redefining_flowsets))) probe_with_400
   = Some (Inr (probe_with_400\<lparr>templates :=
        [400 \<mapsto> [\<lparr>type_fs = 4, length_fs = 1\<rparr>],
         300 \<mapsto> [\<lparr>type_fs = 8, length_fs = 4\<rparr>, \<lparr>type_fs = 12, length_fs = 4\<rparr>,
                  \<lparr>type_fs = 1, length_fs = 4\<rparr>]]\<rparr>))"
  unfolding redefining_wire
  by (simp add: header20_def probe_with_400_def probe1_def eval_loops eval_read)

lemma record_loop_step:
  "recordPtr + recLen \<le> body_end \<Longrightarrow>
   record_loop env buf flds recLen recordPtr body_end sonda =
     (case field_walk buf recordPtr flds 0
             (new_FlowData (indeterminate env (length (inserted sonda)))) of
        Inl e \<Rightarrow> Some (Inl e)
      | Inr flowData \<Rightarrow>
          record_loop env buf flds recLen (recordPtr + recLen) body_end
            (insert_record env (flowData\<lparr>SourceSond := config_name sonda\<rparr>) sonda))"
  by (subst record_loop.simps) simp

lemma record_loop_stop:
  "\<not> recordPtr + recLen \<le> body_end \<Longrightarrow>
   record_loop env buf flds recLen recordPtr body_end sonda = Some (Inr sonda)"
  by (subst record_loop.simps) simp

lemmas eval_records = record_loop_step record_loop_stop decode_field_def new_FlowData_def
  insert_record_def log_line_def inet_ntoa_def decimal.simps digit_char_def

lemma one_record_wire:
  "wire_datagram header20 one_record_flowsets =
     header20 @ [0, 0, 0, 16, 1, 0, 0, 2, 0, 8, 0, 4, 0, 1, 0, 4]
       @ [1, 0, 0, 15, 10, 0, 0, 1, 0, 0, 5, 220, 0, 0, 0]"
  by (simp add: one_record_flowsets_def eval_wire)

lemma one_record_run:
  "processNetFlowV9Data quiet_env (wire_datagram header20 one_record_flowsets @ [0, 0, 0, 0])
     (int (length (wire_datagram header20 one_record_flowsets))) probe1
   = Some (Inr \<lparr>config_name = ''probe1'',
        templates = [256 \<mapsto> [\<lparr>type_fs = 8, length_fs = 4\<rparr>, \<lparr>type_fs = 1, length_fs = 4\<rparr>]],
        inserted = [\<lparr>SourceIP = ''10.0.0.1'', DestinationIP = [], SourcePort = 0,
           DestinationPort = 0, Protocol = 0, PacketCount = 0, ByteCount = 1500,
           FlowStart = [], FlowEnd = [], SourceSond = ''probe1''\<rparr>],
        cerr = []\<rparr>)"
  unfolding one_record_wire
  by (simp add: header20_def probe1_def quiet_env_def zero_FlowData_def eval_loops eval_read
      eval_records)

lemma early_data_wire:
  "wire_datagram header20 early_data_flowsets =
     header20 @ [1, 0, 0, 8, 0, 0, 0, 7] @ [0, 0, 0, 12, 1, 0, 0, 1, 0, 1, 0, 4]"
  by (simp add: early_data_flowsets_def eval_wire)

lemma early_data_run:
  "processNetFlowV9Data quiet_env (wire_datagram header20 early_data_flowsets @ [0, 0, 0, 0])
     (int (length (wire_datagram header20 early_data_flowsets))) probe1
   = Some (Inr \<lparr>config_name = ''probe1'',
        templates = [256 \<mapsto> [\<lparr>type_fs = 1, length_fs = 4\<rparr>]],
        inserted = [],
        cerr = [''Unknown template ID: 256'']\<rparr>)"
  unfolding early_data_wire
  by (simp add: header20_def probe1_def quiet_env_def zero_FlowData_def eval_loops eval_read
      eval_records)

text \<open>
  C3 (as stated, fails on the code). The data FlowSet 256 stands in front of the template
  FlowSet that defines 256 with a record length of 4. After the template FlowSets of the
  datagram every data FlowSet has its template in the table, and the sum of the claim is
  \<open>(8 - 4) div 4 = 1\<close>; the decoder writes \<open>Unknown template ID: 256\<close> and hands no record
  to the database.
\<close>

theorem early_data_flowset_emits_nothing:
  "all_templates_present Map.empty early_data_flowsets
   \<and> claimed_records Map.empty early_data_flowsets = 1
   \<and> processNetFlowV9Data quiet_env (wire_datagram header20 early_data_flowsets @ [0, 0, 0, 0])
        (int (length (wire_datagram header20 early_data_flowsets))) probe1
      = Some (Inr \<lparr>config_name = ''probe1'',
           templates = [256 \<mapsto> [\<lparr>type_fs = 1, length_fs = 4\<rparr>]],
           inserted = [],
           cerr = [''Unknown template ID: 256'']\<rparr>)"
proof -
  have "all_templates_present Map.empty early_data_flowsets"
    by (simp add: all_templates_present_def early_data_flowsets_def install_all_def install_def)
  moreover have "claimed_records Map.empty early_data_flowsets = 1"
    by (simp add: claimed_records_def early_data_flowsets_def install_all_def install_def)
  ultimately show ?thesis
    using early_data_run by simp
qed

text \<open>C3, amended, on a datagram with one record and 3 bytes of padding.\<close>

theorem records_emitted_by_datagram_witness:
  "list_all wf_flowset one_record_flowsets
   \<and> widths_positive (templates probe1) one_record_flowsets
   \<and> records_due (templates probe1) one_record_flowsets = 1
   \<and> (\<exists>sonda'. processNetFlowV9Data quiet_env
          (wire_datagram header20 one_record_flowsets @ [0, 0, 0, 0])
          (int (length (wire_datagram header20 one_record_flowsets))) probe1 = Some (Inr sonda')
        \<and> length (inserted sonda') = 1)"
proof -
  have h: "length header20 = 20"
    by (simp add: header20_def)
  have wf: "list_all wf_flowset one_record_flowsets"
    by (simp add: one_record_flowsets_def wf_template_def wire_template_def)
  have n: "length (wire_datagram header20 one_record_flowsets) \<le> 65536"
    unfolding one_record_wire by (simp add: header20_def)
  have s: "4 \<le> length [0, 0, 0, 0 :: byte]"
    by simp
  have wp: "widths_positive (templates probe1) one_record_flowsets"
    by (simp add: one_record_flowsets_def probe1_def install_all_def install_def)
  have due: "records_due (templates probe1) one_record_flowsets = 1"
    by (simp add: one_record_flowsets_def probe1_def install_all_def install_def)
  from records_emitted_by_datagram [OF h wf n s wp, of quiet_env] due
  have "\<exists>sonda'. processNetFlowV9Data quiet_env
          (wire_datagram header20 one_record_flowsets @ [0, 0, 0, 0])
          (int (length (wire_datagram header20 one_record_flowsets))) probe1 = Some (Inr sonda')
        \<and> length (inserted sonda') = 1"
    by (auto simp: probe1_def)
  with wf wp due show ?thesis
    by blast
qed

text \<open>
  So on a datagram that defines the template 300 twice: the table ends with its second
  definition and with the template 400 as before.
\<close>

lemma template_table_after_datagram_example:
  "list_all wf_flowset redefining_flowsets
   \<and> processNetFlowV9Data quiet_env (wire_datagram header20 redefining_flowsets @ [])
        (int (length (wire_datagram header20 redefining_flowsets))) probe_with_400
      = Some (Inr (probe_with_400\<lparr>templates :=
          [400 \<mapsto> [\<lparr>type_fs = 4, length_fs = 1\<rparr>],
           300 \<mapsto> [\<lparr>type_fs = 8, length_fs = 4\<rparr>, \<lparr>type_fs = 12, length_fs = 4\<rparr>,
                    \<lparr>type_fs = 1, length_fs = 4\<rparr>]]\<rparr>))
   \<and> templates (probe_with_400\<lparr>templates :=
          [400 \<mapsto> [\<lparr>type_fs = 4, length_fs = 1\<rparr>],
           300 \<mapsto> [\<lparr>type_fs = 8, length_fs = 4\<rparr>, \<lparr>type_fs = 12, length_fs = 4\<rparr>,
                    \<lparr>type_fs = 1, length_fs = 4\<rparr>]]\<rparr>) 300
        = Some [\<lparr>type_fs = 8, length_fs = 4\<rparr>, \<lparr>type_fs = 12, length_fs = 4\<rparr>,
                \<lparr>type_fs = 1, length_fs = 4\<rparr>]
   \<and> templates (probe_with_400\<lparr>templates :=
          [400 \<mapsto> [\<lparr>type_fs = 4, length_fs = 1\<rparr>],
           300 \<mapsto> [\<lparr>type_fs = 8, length_fs = 4\<rparr>, \<lparr>type_fs = 12, length_fs = 4\<rparr>,
                    \<lparr>type_fs = 1, length_fs = 4\<rparr>]]\<rparr>) 400
        = templates probe_with_400 400"
proof -
  let ?old = "[\<lparr>type_fs = 8, length_fs = 4\<rparr>, \<lparr>type_fs = 1, length_fs = 4\<rparr>]"
  let ?new = "[\<lparr>type_fs = 8, length_fs = 4\<rparr>, \<lparr>type_fs = 12, length_fs = 4\<rparr>,
               \<lparr>type_fs = 1, length_fs = 4\<rparr>]"
  let ?after = "probe_with_400\<lparr>templates := [400 \<mapsto> [\<lparr>type_fs = 4, length_fs = 1\<rparr>], 300 \<mapsto> ?new]\<rparr>"
  have h: "length header20 = 20"
    by (simp add: header20_def)
  have wf: "list_all wf_flowset redefining_flowsets"
    by (simp add: redefining_flowsets_def wf_template_def wire_template_def)
  have n: "length (wire_datagram header20 redefining_flowsets) \<le> 65536"
    unfolding redefining_wire by (simp add: header20_def)
  note t = template_table_after_datagram [OF h wf n redefining_run]
  have recs: "template_records redefining_flowsets = [(300, ?old)] @ (300, ?new) # []"
    by (simp add: redefining_flowsets_def)
  from t recs have a: "templates ?after 300 = Some ?new"
    by (metis empty_iff image_empty list.set(1))
  have "(400 :: 16 word) \<notin> fst ` set (template_records redefining_flowsets)"
    by (simp add: redefining_flowsets_def)
  with t have b: "templates ?after 400 = templates probe_with_400 400"
    by blast
  from wf redefining_run a b show ?thesis
    by blast
qed

text \<open>
  C7. When the walk stands before a FlowSet whose header fits, whose id is above 255 and has
  no entry in the template table, the rest of the run is the run from the next FlowSet
  (\<open>flowsetLength\<close> bytes further) in the state that differs only by one more line on
  \<^verbatim>\<open>std::cerr\<close>, \<open>Unknown template ID: \<close> and the id: no record is handed to the
  database for this FlowSet and the template table is as before.
\<close>

theorem unknown_template_flowset_skipped:
  assumes "4 \<le> len" and "len < 2 ^ 62"
    and "read_u16 buf ptr = Inr flowsetID"
    and "read_u16 buf (ptr + 2) = Inr flowsetLength"
    and "uint flowsetLength \<le> len"
    and "255 < flowsetID"
    and "templates sonda flowsetID = None"
  shows "flowset_loop env buf ptr len sonda =
         flowset_loop env buf (ptr + uint flowsetLength) (len - uint flowsetLength)
           (sonda\<lparr>cerr := cerr sonda @ [''Unknown template ID: '' @ decimal (unat flowsetID)]\<rparr>)"
proof -
  from assms(6) have "flowsetID \<noteq> 0"
    by auto
  with assms(5-7) show ?thesis
    by (subst flowset_loop_header [OF assms(1-4)]) (simp add: log_line_def)
qed

text \<open>C7 on a datagram that holds a data FlowSet 256 and no template.\<close>

theorem unknown_template_flowset_skipped_witness:
  "read_u16 unknown_template_datagram 20 = Inr 256
   \<and> read_u16 unknown_template_datagram (20 + 2) = Inr 8
   \<and> templates probe1 256 = None
   \<and> flowset_loop quiet_env unknown_template_datagram 20 8 probe1
       = Some (Inr (probe1\<lparr>cerr := [''Unknown template ID: 256'']\<rparr>))"
proof -
  have id: "read_u16 unknown_template_datagram 20 = Inr 256"
    by (simp add: unknown_template_datagram_def header20_def eval_read)
  have fl: "read_u16 unknown_template_datagram (20 + 2) = Inr 8"
    by (simp add: unknown_template_datagram_def header20_def eval_read)
  have none: "templates probe1 256 = None"
    by (simp add: probe1_def)
  have "flowset_loop quiet_env unknown_template_datagram 20 8 probe1
        = flowset_loop quiet_env unknown_template_datagram (20 + uint (8 :: 16 word))
            (8 - uint (8 :: 16 word))
            (probe1\<lparr>cerr := cerr probe1 @ [''Unknown template ID: '' @ decimal (unat (256 :: 16 word))]\<rparr>)"
    by (rule unknown_template_flowset_skipped [OF _ _ id fl _ _ none]) simp_all
  also have "\<dots> = Some (Inr (probe1\<lparr>cerr := [''Unknown template ID: 256'']\<rparr>))"
    by (simp add: flowset_loop_done probe1_def decimal.simps digit_char_def)
  finally show ?thesis
    using id fl none by blast
qed




text \<open>
  C9 (fails on the code). The template has the source address as its only field. The
  record handed to the database has the empty string for the three other string
  members, and for the ports, the protocol and the two counters the values these
  members held when \<^verbatim>\<open>FlowData flowData;\<close> was declared, here 4242, 80, 17, 7 and 9.
\<close>

theorem absent_fields_keep_indeterminate_values:
  "processNetFlowV9Data stale_env source_ip_only_datagram 40 probe1
     = Some (Inr \<lparr>config_name = ''probe1'',
          templates = [256 \<mapsto> [\<lparr>type_fs = 8, length_fs = 4\<rparr>]],
          inserted = [\<lparr>SourceIP = ''10.0.0.1'', DestinationIP = [], SourcePort = 4242,
             DestinationPort = 80, Protocol = 17, PacketCount = 7, ByteCount = 9,
             FlowStart = [], FlowEnd = [], SourceSond = ''probe1''\<rparr>],
          cerr = []\<rparr>)"
  by (simp add: source_ip_only_datagram_def header20_def probe1_def stale_env_def
      stale_FlowData_def eval_loops eval_read eval_records)

lemma field_walk_append:
  "field_walk buf rp (xs @ ys) off fd =
     (case field_walk buf rp xs off fd of Inl e \<Rightarrow> Inl e
      | Inr fd' \<Rightarrow> field_walk buf rp ys (off + recordLength xs) fd')"
proof (induction xs arbitrary: off fd)
  case Nil
  then show ?case by simp
next
  case (Cons x xs)
  show ?case
  proof (cases "decode_field buf (rp + off) (type_fs x) fd")
    case (Inl e)
    then show ?thesis by simp
  next
    case (Inr fd1)
    then show ?thesis
      by (simp add: Cons.IH add.assoc cong: sum.case_cong)
  qed
qed

lemma decode_field_other_ByteCount:
  "t \<noteq> 1 \<Longrightarrow> decode_field buf p t fd = Inr fd' \<Longrightarrow> ByteCount fd' = ByteCount fd"
  by (auto simp: decode_field_def split: if_splits sum.splits)

lemma decode_field_other_PacketCount:
  "t \<noteq> 2 \<Longrightarrow> decode_field buf p t fd = Inr fd' \<Longrightarrow> PacketCount fd' = PacketCount fd"
  by (auto simp: decode_field_def split: if_splits sum.splits)

lemma field_walk_other_ByteCount:
  "list_all (\<lambda>g. type_fs g \<noteq> 1) flds \<Longrightarrow> field_walk buf rp flds off fd = Inr fd'
   \<Longrightarrow> ByteCount fd' = ByteCount fd"
proof (induction flds arbitrary: off fd)
  case Nil
  then show ?case by simp
next
  case (Cons g flds)
  from Cons.prems(2) obtain fd1 where
    d: "decode_field buf (rp + off) (type_fs g) fd = Inr fd1" and
    w: "field_walk buf rp flds (off + uint (length_fs g)) fd1 = Inr fd'"
    by (auto split: sum.splits)
  from Cons.prems(1) have "type_fs g \<noteq> 1" "list_all (\<lambda>g. type_fs g \<noteq> 1) flds"
    by simp_all
  with Cons.IH [OF _ w] decode_field_other_ByteCount [OF _ d] show ?case
    by simp
qed

lemma field_walk_other_PacketCount:
  "list_all (\<lambda>g. type_fs g \<noteq> 2) flds \<Longrightarrow> field_walk buf rp flds off fd = Inr fd'
   \<Longrightarrow> PacketCount fd' = PacketCount fd"
proof (induction flds arbitrary: off fd)
  case Nil
  then show ?case by simp
next
  case (Cons g flds)
  from Cons.prems(2) obtain fd1 where
    d: "decode_field buf (rp + off) (type_fs g) fd = Inr fd1" and
    w: "field_walk buf rp flds (off + uint (length_fs g)) fd1 = Inr fd'"
    by (auto split: sum.splits)
  from Cons.prems(1) have "type_fs g \<noteq> 2" "list_all (\<lambda>g. type_fs g \<noteq> 2) flds"
    by simp_all
  with Cons.IH [OF _ w] decode_field_other_PacketCount [OF _ d] show ?case
    by simp
qed

lemma decode_field_ByteCount:
  "decode_field buf p 1 fd = Inr fd' \<Longrightarrow>
   \<exists>bs. read_bytes buf p 4 = Inr bs \<and> ByteCount fd' = of_nat (big_endian bs)"
  by (auto simp: decode_field_def read_u32_def split: sum.splits)

lemma decode_field_PacketCount:
  "decode_field buf p 2 fd = Inr fd' \<Longrightarrow>
   \<exists>bs. read_bytes buf p 4 = Inr bs \<and> PacketCount fd' = of_nat (big_endian bs)"
  by (auto simp: decode_field_def read_u32_def split: sum.splits)

lemma field_walk_split:
  assumes "field_walk buf rp (before @ field # after) 0 fd = Inr result"
  obtains fd1 fd2 where
    "decode_field buf (rp + recordLength before) (type_fs field) fd1 = Inr fd2"
    "field_walk buf rp after (recordLength before + uint (length_fs field)) fd2 = Inr result"
proof -
  from assms obtain fd1 where
    "field_walk buf rp before 0 fd = Inr fd1" and
    r: "field_walk buf rp (field # after) (0 + recordLength before) fd1 = Inr result"
    by (auto simp: field_walk_append split: sum.splits)
  from r obtain fd2 where
    "decode_field buf (rp + recordLength before) (type_fs field) fd1 = Inr fd2"
    "field_walk buf rp after (recordLength before + uint (length_fs field)) fd2 = Inr result"
    by (auto split: sum.splits)
  then show ?thesis
    by (rule that)
qed

text \<open>
  What the decoder does with a counter field, for every declared length: in a record
  decoded without a read outside the buffer, a field of type 1 at
  the offset \<open>recordLength before\<close> (the sum of the lengths of the fields in front of it:
  each field moves the offset by its own length, whatever its type) sets the byte count
  to the big-endian value of the 4 bytes at that offset, whatever the field's own length
  is, and the byte count stays so when no later field has the type 1. The same holds for
  the type 2 and the packet count.
\<close>

lemma counter_fields_read_four_bytes:
  assumes "field_walk buf recordPtr (before @ field # after) 0 flowData = Inr result"
  shows "(type_fs field = 1 \<and> list_all (\<lambda>g. type_fs g \<noteq> 1) after \<longrightarrow>
            (\<exists>bs. read_bytes buf (recordPtr + recordLength before) 4 = Inr bs
                  \<and> ByteCount result = of_nat (big_endian bs)))
         \<and> (type_fs field = 2 \<and> list_all (\<lambda>g. type_fs g \<noteq> 2) after \<longrightarrow>
            (\<exists>bs. read_bytes buf (recordPtr + recordLength before) 4 = Inr bs
                  \<and> PacketCount result = of_nat (big_endian bs)))"
proof -
  from assms obtain fd1 fd2 where
    d: "decode_field buf (recordPtr + recordLength before) (type_fs field) fd1 = Inr fd2" and
    w: "field_walk buf recordPtr after (recordLength before + uint (length_fs field)) fd2 = Inr result"
    by (rule field_walk_split)
  show ?thesis
  proof (intro conjI impI)
    assume a: "type_fs field = 1 \<and> list_all (\<lambda>g. type_fs g \<noteq> 1) after"
    with field_walk_other_ByteCount [OF _ w] have "ByteCount result = ByteCount fd2"
      by simp
    with decode_field_ByteCount [of buf _ fd1 fd2] d a
    show "\<exists>bs. read_bytes buf (recordPtr + recordLength before) 4 = Inr bs
                  \<and> ByteCount result = of_nat (big_endian bs)"
      by simp
  next
    assume a: "type_fs field = 2 \<and> list_all (\<lambda>g. type_fs g \<noteq> 2) after"
    with field_walk_other_PacketCount [OF _ w] have "PacketCount result = PacketCount fd2"
      by simp
    with decode_field_PacketCount [of buf _ fd1 fd2] d a
    show "\<exists>bs. read_bytes buf (recordPtr + recordLength before) 4 = Inr bs
                  \<and> PacketCount result = of_nat (big_endian bs)"
      by simp
  qed
qed

lemma mixed_record_walk:
  "field_walk mixed_record 0
     ([\<lparr>type_fs = 8, length_fs = 4\<rparr>] @ \<lparr>type_fs = 1, length_fs = 8\<rparr> # [\<lparr>type_fs = 2, length_fs = 4\<rparr>])
     0 zero_FlowData
   = Inr (zero_FlowData\<lparr>SourceIP := ''10.0.0.1'', PacketCount := 3, ByteCount := 0\<rparr>)"
  by (simp add: mixed_record_def zero_FlowData_def eval_read eval_records)

text \<open>
  So on a record with a byte count of 8 bytes at the offset 4: the byte count is the
  number in the bytes 4 to 7, which is 0, and the packet count is read at the offset 12.
\<close>

lemma counter_fields_read_four_bytes_example:
  "field_walk mixed_record 0
     ([\<lparr>type_fs = 8, length_fs = 4\<rparr>] @ \<lparr>type_fs = 1, length_fs = 8\<rparr> # [\<lparr>type_fs = 2, length_fs = 4\<rparr>])
     0 zero_FlowData
   = Inr (zero_FlowData\<lparr>SourceIP := ''10.0.0.1'', PacketCount := 3, ByteCount := 0\<rparr>)
   \<and> (\<exists>bs. read_bytes mixed_record 4 4 = Inr bs
          \<and> ByteCount (zero_FlowData\<lparr>SourceIP := ''10.0.0.1'', PacketCount := 3, ByteCount := 0\<rparr>)
              = of_nat (big_endian bs))"
proof -
  from counter_fields_read_four_bytes [OF mixed_record_walk]
  have "\<exists>bs. read_bytes mixed_record (0 + recordLength [\<lparr>type_fs = 8, length_fs = 4\<rparr>]) 4 = Inr bs
          \<and> ByteCount (zero_FlowData\<lparr>SourceIP := ''10.0.0.1'', PacketCount := 3, ByteCount := 0\<rparr>)
              = of_nat (big_endian bs)"
    by simp
  then show ?thesis
    using mixed_record_walk by simp
qed

text \<open>
  C8 (fails on the code). The template declares the byte count with 8 bytes, and the record
  holds \<open>2 ^ 32 + 1500\<close> there. The 8 bytes of the field read big-endian, cut to their low
  32 bits, are 1500; the decoder reads the first 4 bytes of the field only and hands a
  record with the byte count 1 to the database.
\<close>

theorem wide_byte_count_keeps_high_word:
  "claimed_counter wide_counter_datagram 36 8 = Inr 1500
   \<and> processNetFlowV9Data quiet_env wide_counter_datagram 44 probe1
     = Some (Inr \<lparr>config_name = ''probe1'',
          templates = [256 \<mapsto> [\<lparr>type_fs = 1, length_fs = 8\<rparr>]],
          inserted = [\<lparr>SourceIP = [], DestinationIP = [], SourcePort = 0, DestinationPort = 0,
             Protocol = 0, PacketCount = 0, ByteCount = 1, FlowStart = [], FlowEnd = [],
             SourceSond = ''probe1''\<rparr>],
          cerr = []\<rparr>)"
  by (simp add: claimed_counter_def wide_counter_datagram_def header20_def probe1_def
      quiet_env_def zero_FlowData_def eval_loops eval_read eval_records)

text \<open>
  C4 (fails on the code). The first template FlowSet of the datagram has the length 14: one
  template record of 8 bytes, which defines the template 256, and 2 bytes of padding.
  The decoder returns from the datagram, and it has taken the padding and the first two
  bytes of the next FlowSet for the head of a template record. With the padding
  \<open>00 00\<close> the table ends with an entry for the id 0, which no template record of the
  datagram defines; with the padding \<open>01 00\<close> it ends with the empty field list for the
  id 256, not with the field list of the record that defines 256.
\<close>

theorem padded_template_flowset_installs_padding:
  "processNetFlowV9Data env (padded_template_datagram 0 0) 46 probe1
     = Some (Inr \<lparr>config_name = ''probe1'',
          templates = [256 \<mapsto> [\<lparr>type_fs = 1, length_fs = 4\<rparr>], 0 \<mapsto> [],
                       257 \<mapsto> [\<lparr>type_fs = 2, length_fs = 4\<rparr>]],
          inserted = [], cerr = []\<rparr>)
   \<and> processNetFlowV9Data env (padded_template_datagram 1 0) 46 probe1
     = Some (Inr \<lparr>config_name = ''probe1'',
          templates = [256 \<mapsto> [], 257 \<mapsto> [\<lparr>type_fs = 2, length_fs = 4\<rparr>]],
          inserted = [], cerr = []\<rparr>)"
  by (simp add: padded_template_datagram_def header20_def probe1_def eval_loops eval_read)

end
